theory Spec2Isabelle
  imports Main
begin

section \<open>Data model (shared/schema.ts)\<close>

text \<open>
  The tables \<open>resources\<close> and \<open>bookings\<close> of \<^verbatim>\<open>shared/schema.ts\<close>. A row of
  \<open>bookings\<close> is an \<open>InsertBooking\<close> (the columns a client supplies) extended with the
  serial primary key \<open>id\<close>; the key is written \<open>b_id\<close> here (\<open>r_id\<close> for a resource)
  because \<open>id\<close> is the identity function of HOL. A \<open>timestamp\<close> column holds a
  JavaScript \<open>Date\<close>, which the program only ever compares; it is the number of
  milliseconds since the epoch, an \<open>int\<close>. The value \<open>Invalid Date\<close> is outside the
  model: it cannot be stored, and the first query that receives it throws. Keys are
  \<open>int\<close> as well; the 32-bit range of the columns is not modelled.
\<close>

record insertResource =
  name :: string
  description :: "string option"
  location :: string
  capacity :: int
  isAvailable :: bool

record resource = insertResource +
  r_id :: int

record insertBooking =
  resourceId :: int
  startTime :: int
  endTime :: int
  bookedBy :: string
  purpose :: string

record booking = insertBooking +
  b_id :: int

text \<open>The instant \<open>h:m\<close> of the first day of the epoch, in milliseconds.\<close>

definition clock :: "int \<Rightarrow> int \<Rightarrow> int" where
  "clock h m = (h * 60 + m) * 60000"

section \<open>Query conditions (drizzle-orm operators)\<close>

text \<open>
  A condition of a \<open>where\<close> clause is a predicate on a row; its operands are a column
  (a field selector) or a value (\<open>val\<close>). The operators carry the suffix \<open>_cond\<close>
  since \<open>and\<close>, \<open>or\<close>, \<open>not\<close> and \<open>eq\<close> are taken in HOL.
\<close>

definition val :: "'a \<Rightarrow> 'r \<Rightarrow> 'a" where
  "val v = (\<lambda>_. v)"

definition eq_cond :: "('r \<Rightarrow> 'a) \<Rightarrow> ('r \<Rightarrow> 'a) \<Rightarrow> 'r \<Rightarrow> bool" where
  "eq_cond x y = (\<lambda>r. x r = y r)"

definition lte_cond :: "('r \<Rightarrow> int) \<Rightarrow> ('r \<Rightarrow> int) \<Rightarrow> 'r \<Rightarrow> bool" where
  "lte_cond x y = (\<lambda>r. x r \<le> y r)"

definition gte_cond :: "('r \<Rightarrow> int) \<Rightarrow> ('r \<Rightarrow> int) \<Rightarrow> 'r \<Rightarrow> bool" where
  "gte_cond x y = (\<lambda>r. x r \<ge> y r)"

definition not_cond :: "('r \<Rightarrow> bool) \<Rightarrow> 'r \<Rightarrow> bool" where
  "not_cond c = (\<lambda>r. \<not> c r)"

definition and_cond :: "('r \<Rightarrow> bool) list \<Rightarrow> 'r \<Rightarrow> bool" where
  "and_cond cs = (\<lambda>r. list_all (\<lambda>c. c r) cs)"

definition or_cond :: "('r \<Rightarrow> bool) list \<Rightarrow> 'r \<Rightarrow> bool" where
  "or_cond cs = (\<lambda>r. list_ex (\<lambda>c. c r) cs)"

text \<open>
  JavaScript truthiness of an optional number, as tested by \<open>if (excludeBookingId)\<close> and by
  \<open>validatedData.resourceId || ...\<close>: \<open>undefined\<close> and \<open>0\<close> are falsy.
\<close>

definition truthy :: "int option \<Rightarrow> bool" where
  "truthy x = (case x of None \<Rightarrow> False | Some n \<Rightarrow> n \<noteq> 0)"

section \<open>The store (server/db.ts behind server/storage.ts)\<close>

text \<open>
  The database: the two tables and the two sequences that feed the \<open>serial\<close> keys. A
  sequence starts at 1 and a value it has handed out is never handed out again, also
  when the insert that asked for it fails. Every method of \<open>DatabaseStorage\<close> is a
  function from the store to a result and the store afterwards; a failing statement
  (the \<open>throw\<close> of the driver or of the query builder) is the left summand of the result.
\<close>

record store =
  resourceRows :: "resource list"
  bookingRows :: "booking list"
  resourceSeq :: int
  bookingSeq :: int

definition emptyStore :: store where
  "emptyStore = \<lparr>resourceRows = [], bookingRows = [], resourceSeq = 1, bookingSeq = 1\<rparr>"

datatype dbError = ForeignKeyViolation | NoValuesToSet | QueryFailed

text \<open>\<open>Partial<InsertBooking>\<close> and \<open>Partial<InsertResource>\<close>: every key may be absent.\<close>

record partialBooking =
  p_resourceId :: "int option"
  p_startTime :: "int option"
  p_endTime :: "int option"
  p_bookedBy :: "string option"
  p_purpose :: "string option"

record partialResource =
  p_name :: "string option"
  p_description :: "string option option"
  p_location :: "string option"
  p_capacity :: "int option"
  p_isAvailable :: "bool option"

definition orElse :: "'a option \<Rightarrow> 'a \<Rightarrow> 'a" where
  "orElse x d = (case x of None \<Rightarrow> d | Some v \<Rightarrow> v)"

section \<open>The conflict checker (storage.ts, checkBookingConflict)\<close>

text \<open>
  The repository holds two copies of \<open>storage.ts\<close>. They differ in \<open>checkBookingConflict\<close>:
  one collects its conditions in the array \<open>conditions\<close> and passes \<open>and(...conditions)\<close>
  to a single \<open>where\<close>; the other, \<open>src/server/storage.ts\<close>, is the file that the
  import \<open>./storage\<close> of the routes names, and calls \<open>where\<close> on the query a second
  time. The first is modelled here, the second in its own subsection.

  The three sub-conditions, named after the comments of the source: new booking starts
  during existing booking, new booking ends during existing booking, new booking
  completely encompasses existing booking.
\<close>

definition startsDuring :: "int \<Rightarrow> booking \<Rightarrow> bool" where
  "startsDuring newStart = and_cond [lte_cond startTime (val newStart), gte_cond endTime (val newStart)]"

definition endsDuring :: "int \<Rightarrow> booking \<Rightarrow> bool" where
  "endsDuring newEnd = and_cond [lte_cond startTime (val newEnd), gte_cond endTime (val newEnd)]"

definition encompasses :: "int \<Rightarrow> int \<Rightarrow> booking \<Rightarrow> bool" where
  "encompasses newStart newEnd = and_cond [gte_cond startTime (val newStart), lte_cond endTime (val newEnd)]"

text \<open>The \<open>or(...)\<close> of the three sub-conditions.\<close>

definition overlapCondition :: "int \<Rightarrow> int \<Rightarrow> booking \<Rightarrow> bool" where
  "overlapCondition newStart newEnd =
     or_cond [startsDuring newStart, endsDuring newEnd, encompasses newStart newEnd]"

text \<open>The array \<open>conditions\<close> of the checker, with the optional push of the exclusion.\<close>

definition conditions :: "int \<Rightarrow> int \<Rightarrow> int \<Rightarrow> int option \<Rightarrow> (booking \<Rightarrow> bool) list" where
  "conditions rid newStart newEnd excludeBookingId =
     [eq_cond resourceId (val rid), overlapCondition newStart newEnd]
     @ (case excludeBookingId of
          None \<Rightarrow> []
        | Some ex \<Rightarrow> if truthy excludeBookingId then [not_cond (eq_cond b_id (val ex))] else [])"

text \<open>
  \<open>checkBookingConflict\<close> selects the rows of \<open>bookings\<close> that satisfy all conditions,
  takes the first one (\<open>const [conflict] = ...\<close>) and returns \<open>!!conflict\<close>. It issues
  a \<open>select\<close> only, so the store it returns is the store it was given.
\<close>

definition checkBookingConflict :: "int \<Rightarrow> int \<Rightarrow> int \<Rightarrow> int option \<Rightarrow> store \<Rightarrow> bool \<times> store" where
  "checkBookingConflict rid newStart newEnd excludeBookingId st =
     (case filter (and_cond (conditions rid newStart newEnd excludeBookingId)) (bookingRows st) of
        [] \<Rightarrow> (False, st)
      | conflict # _ \<Rightarrow> (True, st))"

subsection \<open>The second copy of the checker (src/server/storage.ts)\<close>

text \<open>
  This copy writes each comparison with the \<open>Date\<close> as the left operand
  (\<open>gte(startTime, bookings.startTime)\<close>). An operand on the right of a column is
  encoded as the column encodes its values (\<open>toISOString\<close>, the instant in UTC); an
  operand on the left is handed to the driver as it is, which renders a \<open>Date\<close> in the
  local time of the process, and the database reads that text as a \<open>timestamp\<close>
  without time zone. Against the stored values the candidate is therefore shifted by the
  offset of the process's time zone from UTC, \<open>zone\<close>, in milliseconds (0 for a
  process in UTC; daylight saving is not modelled).
\<close>

definition asParameter :: "int \<Rightarrow> int \<Rightarrow> int" where
  "asParameter zone date = date + zone"

definition startsDuring_server :: "int \<Rightarrow> int \<Rightarrow> booking \<Rightarrow> bool" where
  "startsDuring_server zone newStart =
     and_cond [gte_cond (val (asParameter zone newStart)) startTime,
               lte_cond (val (asParameter zone newStart)) endTime]"

definition endsDuring_server :: "int \<Rightarrow> int \<Rightarrow> booking \<Rightarrow> bool" where
  "endsDuring_server zone newEnd =
     and_cond [gte_cond (val (asParameter zone newEnd)) startTime,
               lte_cond (val (asParameter zone newEnd)) endTime]"

definition encompasses_server :: "int \<Rightarrow> int \<Rightarrow> int \<Rightarrow> booking \<Rightarrow> bool" where
  "encompasses_server zone newStart newEnd =
     and_cond [lte_cond (val (asParameter zone newStart)) startTime,
               gte_cond (val (asParameter zone newEnd)) endTime]"

definition overlapCondition_server :: "int \<Rightarrow> int \<Rightarrow> int \<Rightarrow> booking \<Rightarrow> bool" where
  "overlapCondition_server zone newStart newEnd =
     or_cond [startsDuring_server zone newStart, endsDuring_server zone newEnd,
              encompasses_server zone newStart newEnd]"

text \<open>
  The exclusion branch is \<open>query = query.where(and(query.where, eq(bookings.id,
  excludeBookingId)))\<close>. The first operand of \<open>and\<close> is \<open>query.where\<close>, the method of
  the query builder and not a condition: no statement can be made of it, and awaiting
  the query throws. So every call with a truthy \<open>excludeBookingId\<close> fails; the other
  calls return \<open>conflicts.length > 0\<close>.
\<close>

definition checkBookingConflict_server ::
  "int \<Rightarrow> int \<Rightarrow> int \<Rightarrow> int \<Rightarrow> int option \<Rightarrow> store \<Rightarrow> (dbError + bool) \<times> store" where
  "checkBookingConflict_server zone rid newStart newEnd excludeBookingId st =
     (let query = and_cond [eq_cond resourceId (val rid),
                            overlapCondition_server zone newStart newEnd]
      in if truthy excludeBookingId then (Inl QueryFailed, st)
         else let conflicts = filter query (bookingRows st)
              in (Inr (length conflicts > 0), st))"

section \<open>The other storage methods (storage.ts)\<close>

definition resourceIds :: "store \<Rightarrow> int list" where
  "resourceIds st = map r_id (resourceRows st)"

definition getBooking :: "int \<Rightarrow> store \<Rightarrow> booking option \<times> store" where
  "getBooking i st = (find (\<lambda>b. b_id b = i) (bookingRows st), st)"

text \<open>
  \<open>createBooking\<close>: the insert draws the key from the sequence and fails when
  \<open>resource_id\<close> references no resource (\<open>references(() => resources.id)\<close>).
\<close>

definition createBooking :: "insertBooking \<Rightarrow> store \<Rightarrow> (dbError + booking) \<times> store" where
  "createBooking data st =
     (let n = bookingSeq st;
          st1 = st\<lparr>bookingSeq := n + 1\<rparr>;
          newBooking = \<lparr>resourceId = resourceId data, startTime = startTime data,
                        endTime = endTime data, bookedBy = bookedBy data,
                        purpose = purpose data, b_id = n\<rparr>
      in if resourceId data \<in> set (resourceIds st)
         then (Inr newBooking, st1\<lparr>bookingRows := bookingRows st @ [newBooking]\<rparr>)
         else (Inl ForeignKeyViolation, st1))"

text \<open>\<open>.set(booking)\<close> writes the keys that are present and leaves the other columns.\<close>

definition setBooking :: "partialBooking \<Rightarrow> booking \<Rightarrow> booking" where
  "setBooking upd b =
     b\<lparr>resourceId := orElse (p_resourceId upd) (resourceId b),
       startTime := orElse (p_startTime upd) (startTime b),
       endTime := orElse (p_endTime upd) (endTime b),
       bookedBy := orElse (p_bookedBy upd) (bookedBy b),
       purpose := orElse (p_purpose upd) (purpose b)\<rparr>"

definition emptyBookingUpdate :: "partialBooking \<Rightarrow> bool" where
  "emptyBookingUpdate upd =
     (p_resourceId upd = None \<and> p_startTime upd = None \<and> p_endTime upd = None
      \<and> p_bookedBy upd = None \<and> p_purpose upd = None)"

text \<open>
  \<open>updateBooking\<close>: an update with no key to set is refused by the query builder; no
  row with that key gives \<open>undefined\<close>; a new \<open>resource_id\<close> that references no
  resource fails the statement.
\<close>

definition updateBooking :: "int \<Rightarrow> partialBooking \<Rightarrow> store \<Rightarrow> (dbError + booking option) \<times> store" where
  "updateBooking i upd st =
     (if emptyBookingUpdate upd then (Inl NoValuesToSet, st)
      else case find (\<lambda>b. b_id b = i) (bookingRows st) of
             None \<Rightarrow> (Inr None, st)
           | Some old \<Rightarrow>
               let updatedBooking = setBooking upd old
               in if resourceId updatedBooking \<noteq> resourceId old
                     \<and> resourceId updatedBooking \<notin> set (resourceIds st)
                  then (Inl ForeignKeyViolation, st)
                  else (Inr (Some updatedBooking),
                        st\<lparr>bookingRows :=
                             map (\<lambda>b. if b_id b = i then setBooking upd b else b) (bookingRows st)\<rparr>))"

definition deleteBooking :: "int \<Rightarrow> store \<Rightarrow> bool \<times> store" where
  "deleteBooking i st =
     (let kept = filter (\<lambda>b. b_id b \<noteq> i) (bookingRows st)
      in (length kept < length (bookingRows st), st\<lparr>bookingRows := kept\<rparr>))"

definition createResource :: "insertResource \<Rightarrow> store \<Rightarrow> resource \<times> store" where
  "createResource data st =
     (let n = resourceSeq st;
          newResource = \<lparr>name = name data, description = description data,
                         location = location data, capacity = capacity data,
                         isAvailable = isAvailable data, r_id = n\<rparr>
      in (newResource, st\<lparr>resourceRows := resourceRows st @ [newResource], resourceSeq := n + 1\<rparr>))"

definition setResource :: "partialResource \<Rightarrow> resource \<Rightarrow> resource" where
  "setResource upd r =
     r\<lparr>name := orElse (p_name upd) (name r),
       description := orElse (p_description upd) (description r),
       location := orElse (p_location upd) (location r),
       capacity := orElse (p_capacity upd) (capacity r),
       isAvailable := orElse (p_isAvailable upd) (isAvailable r)\<rparr>"

definition emptyResourceUpdate :: "partialResource \<Rightarrow> bool" where
  "emptyResourceUpdate upd =
     (p_name upd = None \<and> p_description upd = None \<and> p_location upd = None
      \<and> p_capacity upd = None \<and> p_isAvailable upd = None)"

definition updateResource :: "int \<Rightarrow> partialResource \<Rightarrow> store \<Rightarrow> (dbError + resource option) \<times> store" where
  "updateResource i upd st =
     (if emptyResourceUpdate upd then (Inl NoValuesToSet, st)
      else case find (\<lambda>r. r_id r = i) (resourceRows st) of
             None \<Rightarrow> (Inr None, st)
           | Some old \<Rightarrow>
               (Inr (Some (setResource upd old)),
                st\<lparr>resourceRows :=
                     map (\<lambda>r. if r_id r = i then setResource upd r else r) (resourceRows st)\<rparr>))"

text \<open>\<open>deleteResource\<close>: a resource that a booking references cannot be deleted.\<close>

definition deleteResource :: "int \<Rightarrow> store \<Rightarrow> (dbError + bool) \<times> store" where
  "deleteResource i st =
     (let kept = filter (\<lambda>r. r_id r \<noteq> i) (resourceRows st)
      in if length kept < length (resourceRows st) \<and> list_ex (\<lambda>b. resourceId b = i) (bookingRows st)
         then (Inl ForeignKeyViolation, st)
         else (Inr (length kept < length (resourceRows st)), st\<lparr>resourceRows := kept\<rparr>))"

section \<open>The routes (server/routes.ts)\<close>

text \<open>
  The response of a handler: the status and what the claims need of the body. The request
  body has passed the zod schema, so the \<open>400\<close> of a malformed body or key is not a case
  here; \<open>InvalidInterval\<close> is the \<open>400\<close> with the message "End time must be after start
  time", \<open>Conflict\<close> the \<open>409\<close>, \<open>NotFound\<close> the \<open>404\<close>, \<open>ServerError\<close> the \<open>500\<close> of the
  \<open>catch\<close> block.
\<close>

datatype response =
    Created booking
  | Updated booking
  | Deleted
  | ResourceCreated resource
  | ResourceUpdated resource
  | InvalidInterval
  | Conflict
  | NotFound
  | ServerError

text \<open>
  \<open>POST /api/bookings\<close> as one function of the request, over the first copy of the
  checker.
\<close>

definition postBooking :: "insertBooking \<Rightarrow> store \<Rightarrow> response \<times> store" where
  "postBooking validatedData st =
     (let (hasConflict, st1) =
            checkBookingConflict (resourceId validatedData) (startTime validatedData)
              (endTime validatedData) None st
      in if hasConflict then (Conflict, st1)
         else if endTime validatedData \<le> startTime validatedData then (InvalidInterval, st1)
         else case createBooking validatedData st1 of
                (Inl err, st2) \<Rightarrow> (ServerError, st2)
              | (Inr booking, st2) \<Rightarrow> (Created booking, st2))"

text \<open>
  The handlers that make one call on \<open>storage\<close>: \<open>DELETE /api/bookings/:id\<close>, and
  \<open>POST\<close>, \<open>PUT\<close> and \<open>DELETE\<close> on \<open>/api/resources\<close>. \<open>commitUpdate\<close> is the part of
  \<open>PUT /api/bookings/:id\<close> after the conflict block.
\<close>

definition deleteBookingRoute :: "int \<Rightarrow> store \<Rightarrow> response \<times> store" where
  "deleteBookingRoute i st =
     (case deleteBooking i st of
        (False, st1) \<Rightarrow> (NotFound, st1)
      | (True, st1) \<Rightarrow> (Deleted, st1))"

definition postResource :: "insertResource \<Rightarrow> store \<Rightarrow> response \<times> store" where
  "postResource validatedData st =
     (case createResource validatedData st of (resource, st1) \<Rightarrow> (ResourceCreated resource, st1))"

definition putResource :: "int \<Rightarrow> partialResource \<Rightarrow> store \<Rightarrow> response \<times> store" where
  "putResource i validatedData st =
     (case updateResource i validatedData st of
        (Inl err, st1) \<Rightarrow> (ServerError, st1)
      | (Inr None, st1) \<Rightarrow> (NotFound, st1)
      | (Inr (Some resource), st1) \<Rightarrow> (ResourceUpdated resource, st1))"

definition deleteResourceRoute :: "int \<Rightarrow> store \<Rightarrow> response \<times> store" where
  "deleteResourceRoute i st =
     (case deleteResource i st of
        (Inl err, st1) \<Rightarrow> (ServerError, st1)
      | (Inr False, st1) \<Rightarrow> (NotFound, st1)
      | (Inr True, st1) \<Rightarrow> (Deleted, st1))"

definition commitUpdate :: "int \<Rightarrow> partialBooking \<Rightarrow> store \<Rightarrow> response \<times> store" where
  "commitUpdate i validatedData st =
     (case updateBooking i validatedData st of
        (Inl err, st1) \<Rightarrow> (ServerError, st1)
      | (Inr None, st1) \<Rightarrow> (NotFound, st1)
      | (Inr (Some booking), st1) \<Rightarrow> (Updated booking, st1))"

subsection \<open>The handlers, one call on storage at a time\<close>

text \<open>
  A handler is \<open>async\<close>: it runs up to its next \<open>await storage. ...\<close>, the database
  executes that one statement, and the handler goes on with the result. No handler opens
  a transaction, and the tables carry no constraint on the times, so between two calls
  of one request the calls of other requests may run. A request in flight is therefore
  modelled by what it still has to do: \<open>PostBooking\<close> and \<open>PutBooking\<close> are the requests
  as they arrive; \<open>PostBookingInsert\<close> is a creation that has passed the conflict check and
  the interval test and has \<open>createBooking\<close> ahead; \<open>PutBookingCheck\<close> is an update
  that holds the \<open>existingBooking\<close> it read and has the conflict check ahead;
  \<open>PutBookingUpdate\<close> has \<open>updateBooking\<close> ahead. The checker is the one of
  \<open>src/server/storage.ts\<close>, with the time zone of the process as a parameter.
\<close>

datatype request =
    PostBooking insertBooking
  | PostBookingInsert insertBooking
  | PutBooking int partialBooking
  | PutBookingCheck int partialBooking booking
  | PutBookingUpdate int partialBooking
  | DeleteBooking int
  | PostResource insertResource
  | PutResource int partialResource
  | DeleteResource int

datatype storageCall =
    CheckBookingConflictCall int int int "int option"
  | CreateBookingCall insertBooking
  | GetBookingCall int
  | UpdateBookingCall int partialBooking
  | DeleteBookingCall int
  | CreateResourceCall insertResource
  | UpdateResourceCall int partialResource
  | DeleteResourceCall int

text \<open>
  JavaScript's \<open>a || b\<close> where \<open>a\<close> is an optional number: \<open>b\<close> when \<open>a\<close> is absent or
  0. For an optional \<open>Date\<close>, which is truthy whenever it is present, \<open>a || b\<close> is
  \<open>orElse\<close>.
\<close>

definition orNumber :: "int option \<Rightarrow> int \<Rightarrow> int" where
  "orNumber a b = (if truthy a then orElse a b else b)"

definition respond :: "response \<times> store \<Rightarrow> (response + request) \<times> store" where
  "respond answer = (Inl (fst answer), snd answer)"

text \<open>
  \<open>advance\<close> runs a request up to and including its next call on \<open>storage\<close>: it gives
  the call, then either the response (\<open>Inl\<close>) or what the request has left to do
  (\<open>Inr\<close>), and the store after the call. A call that throws is answered by the
  \<open>catch\<close> block with \<open>ServerError\<close>.
\<close>

fun advance :: "int \<Rightarrow> request \<Rightarrow> store \<Rightarrow> storageCall \<times> (response + request) \<times> store" where
  "advance zone (PostBooking validatedData) st =
     (CheckBookingConflictCall (resourceId validatedData) (startTime validatedData)
        (endTime validatedData) None,
      case checkBookingConflict_server zone (resourceId validatedData)
             (startTime validatedData) (endTime validatedData) None st of
        (Inl err, st1) \<Rightarrow> (Inl ServerError, st1)
      | (Inr hasConflict, st1) \<Rightarrow>
          if hasConflict then (Inl Conflict, st1)
          else if endTime validatedData \<le> startTime validatedData
          then (Inl InvalidInterval, st1)
          else (Inr (PostBookingInsert validatedData), st1))"
| "advance zone (PostBookingInsert validatedData) st =
     (CreateBookingCall validatedData,
      case createBooking validatedData st of
        (Inl err, st1) \<Rightarrow> (Inl ServerError, st1)
      | (Inr booking, st1) \<Rightarrow> (Inl (Created booking), st1))"
| "advance zone (PutBooking i validatedData) st =
     (if truthy (p_resourceId validatedData) \<or> p_startTime validatedData \<noteq> None
         \<or> p_endTime validatedData \<noteq> None
      then (GetBookingCall i,
            case getBooking i st of
              (None, st1) \<Rightarrow> (Inl NotFound, st1)
            | (Some existingBooking, st1) \<Rightarrow>
                (Inr (PutBookingCheck i validatedData existingBooking), st1))
      else (UpdateBookingCall i validatedData, respond (commitUpdate i validatedData st)))"
| "advance zone (PutBookingCheck i validatedData existingBooking) st =
     (let rid = orNumber (p_resourceId validatedData) (resourceId existingBooking);
          newStart = orElse (p_startTime validatedData) (startTime existingBooking);
          newEnd = orElse (p_endTime validatedData) (endTime existingBooking)
      in (CheckBookingConflictCall rid newStart newEnd (Some i),
          case checkBookingConflict_server zone rid newStart newEnd (Some i) st of
            (Inl err, st1) \<Rightarrow> (Inl ServerError, st1)
          | (Inr hasConflict, st1) \<Rightarrow>
              if hasConflict then (Inl Conflict, st1)
              else if newEnd \<le> newStart then (Inl InvalidInterval, st1)
              else (Inr (PutBookingUpdate i validatedData), st1)))"
| "advance zone (PutBookingUpdate i validatedData) st =
     (UpdateBookingCall i validatedData, respond (commitUpdate i validatedData st))"
| "advance zone (DeleteBooking i) st = (DeleteBookingCall i, respond (deleteBookingRoute i st))"
| "advance zone (PostResource validatedData) st =
     (CreateResourceCall validatedData, respond (postResource validatedData st))"
| "advance zone (PutResource i validatedData) st =
     (UpdateResourceCall i validatedData, respond (putResource i validatedData st))"
| "advance zone (DeleteResource i) st = (DeleteResourceCall i, respond (deleteResourceRoute i st))"

text \<open>The calls on \<open>storage\<close> a request still has ahead, at most.\<close>

fun stage :: "request \<Rightarrow> nat" where
  "stage (PostBooking _) = 2"
| "stage (PutBooking _ _) = 3"
| "stage (PutBookingCheck _ _ _) = 2"
| "stage _ = 1"

text \<open>
  \<open>serve\<close> runs one request from where it stands to its response with no other request
  in between: the calls it made in order, the response, and the store afterwards.
\<close>

function serve :: "int \<Rightarrow> request \<Rightarrow> store \<Rightarrow> storageCall list \<times> response \<times> store" where
  "serve zone req st =
     (case advance zone req st of
        (call, Inl response, st1) \<Rightarrow> ([call], response, st1)
      | (call, Inr next, st1) \<Rightarrow>
          (case serve zone next st1 of
             (calls, response, st2) \<Rightarrow> (call # calls, response, st2)))"
  by pat_completeness auto
termination
proof (relation "measure (\<lambda>(zone, req, st). stage req)")
  fix zone req st call rest outcome st1 req1
  assume "(call, rest) = advance zone req st" "(outcome, st1) = rest" "outcome = Inr req1"
  then have "advance zone req st = (call, Inr req1, st1)" by simp
  then show "((zone, req1, st1), (zone, req, st)) \<in> measure (\<lambda>(zone, req, st). stage req)"
    by (cases req)
       (auto simp: respond_def Let_def split: prod.splits sum.splits if_splits option.splits)
qed simp

declare serve.simps [simp del]

text \<open>The requests as a client sends them.\<close>

fun arrives :: "request \<Rightarrow> bool" where
  "arrives (PostBookingInsert _) = False"
| "arrives (PutBookingCheck _ _ _) = False"
| "arrives (PutBookingUpdate _ _) = False"
| "arrives _ = True"

text \<open>
  The stores the application can reach from the empty database, with the requests in
  flight: a request arrives, or one of the requests in flight makes its next call.
\<close>

inductive reachable :: "int \<Rightarrow> store \<Rightarrow> request list \<Rightarrow> bool" for zone :: int where
  reach_empty: "reachable zone emptyStore []"
| reach_arrive: "reachable zone st rs \<Longrightarrow> arrives r \<Longrightarrow> reachable zone st (r # rs)"
| reach_respond:
    "reachable zone st (rs @ r # rs') \<Longrightarrow> advance zone r st = (call, Inl response, st')
     \<Longrightarrow> reachable zone st' (rs @ rs')"
| reach_continue:
    "reachable zone st (rs @ r # rs') \<Longrightarrow> advance zone r st = (call, Inr next, st')
     \<Longrightarrow> reachable zone st' (rs @ next # rs')"

text \<open>
  The stores reached when the requests are served one after the other, each to its
  response before the next arrives.
\<close>

inductive reachableSerially :: "int \<Rightarrow> store \<Rightarrow> bool" for zone :: int where
  serial_empty: "reachableSerially zone emptyStore"
| serial_serve:
    "reachableSerially zone st \<Longrightarrow> arrives r \<Longrightarrow> serve zone r st = (calls, response, st')
     \<Longrightarrow> reachableSerially zone st'"

text \<open>
  What the database and the handlers maintain together when the requests are served one
  after the other in UTC: the sequences are ahead of the keys in use, keys are positive
  and unique, every booking references a resource, every booking has
  \<open>startTime < endTime\<close>, and two bookings of one resource do not even touch.
\<close>

definition consistent :: "store \<Rightarrow> bool" where
  "consistent st =
     (1 \<le> resourceSeq st \<and> 1 \<le> bookingSeq st
      \<and> (\<forall>r \<in> set (resourceRows st). 1 \<le> r_id r)
      \<and> (\<forall>b \<in> set (bookingRows st).
            1 \<le> b_id b \<and> b_id b < bookingSeq st
            \<and> resourceId b \<in> set (resourceIds st) \<and> startTime b < endTime b)
      \<and> distinct (map b_id (bookingRows st))
      \<and> (\<forall>a \<in> set (bookingRows st). \<forall>b \<in> set (bookingRows st).
            b_id a \<noteq> b_id b \<longrightarrow> resourceId a = resourceId b \<longrightarrow>
            \<not> (startTime a \<le> endTime b \<and> startTime b \<le> endTime a)))"

section \<open>Example data\<close>

text \<open>
  The bookings of the examples: \<open>bookingA\<close> is the booking with id 5 on resource 1 from
  10:00 to 11:00, \<open>bookingB\<close> a booking with id 6 on the same resource from 11:15 to
  11:45; \<open>storeA\<close> holds the first, \<open>storeAB\<close> both.
\<close>

definition room :: "int \<Rightarrow> resource" where
  "room i = \<lparr>name = ''Room'', description = None, location = ''HQ'', capacity = 4,
             isAvailable = True, r_id = i\<rparr>"

definition bookingA :: booking where
  "bookingA = \<lparr>resourceId = 1, startTime = clock 10 0, endTime = clock 11 0,
               bookedBy = ''Ada'', purpose = ''Standup'', b_id = 5\<rparr>"

definition bookingB :: booking where
  "bookingB = \<lparr>resourceId = 1, startTime = clock 11 15, endTime = clock 11 45,
               bookedBy = ''Bob'', purpose = ''Review'', b_id = 6\<rparr>"

definition storeA :: store where
  "storeA = \<lparr>resourceRows = [room 1, room 2], bookingRows = [bookingA],
             resourceSeq = 3, bookingSeq = 6\<rparr>"

definition storeAB :: store where
  "storeAB = \<lparr>resourceRows = [room 1, room 2], bookingRows = [bookingA, bookingB],
              resourceSeq = 3, bookingSeq = 7\<rparr>"

text \<open>
  The requests of the examples: a booking of length zero on resource 1 at 10:30, and an
  update that changes the purpose only.
\<close>

definition zeroLength :: insertBooking where
  "zeroLength = \<lparr>resourceId = 1, startTime = clock 10 30, endTime = clock 10 30,
                 bookedBy = ''Cy'', purpose = ''Call''\<rparr>"

definition purposeOnly :: partialBooking where
  "purposeOnly = \<lparr>p_resourceId = None, p_startTime = None, p_endTime = None,
                  p_bookedBy = None, p_purpose = Some ''Retro''\<rparr>"

text \<open>
  A day of requests on the empty database: one resource is created, then the two
  bookings are requested one after the other.
\<close>

definition roomData :: insertResource where
  "roomData = \<lparr>name = ''Room'', description = None, location = ''HQ'', capacity = 4,
               isAvailable = True\<rparr>"

definition firstRequest :: insertBooking where
  "firstRequest = \<lparr>resourceId = 1, startTime = clock 10 0, endTime = clock 11 0,
                   bookedBy = ''Ada'', purpose = ''Standup''\<rparr>"

definition secondRequest :: insertBooking where
  "secondRequest = \<lparr>resourceId = 1, startTime = clock 11 15, endTime = clock 11 45,
                    bookedBy = ''Bob'', purpose = ''Review''\<rparr>"

definition dayStore :: store where
  "dayStore =
     snd (snd (serve 0 (PostBooking secondRequest)
       (snd (snd (serve 0 (PostBooking firstRequest)
         (snd (snd (serve 0 (PostResource roomData) emptyStore))))))))"

text \<open>
  Two more requests for resource 1: one from 10:30 to 11:30, which overlaps the first
  request, and one from 10:15 to 10:45, which lies inside it. \<open>racedStore\<close> holds the
  first request and the overlapping one, \<open>shiftedStore\<close> the first request and the one
  inside it; \<open>twoHoursEast\<close> is the offset of a process at UTC+2. \<open>moveToNoon\<close>
  is an update that moves a booking to 12:00 until 13:00, \<open>changeResource\<close> one that
  moves it to resource 2.
\<close>

definition overlapRequest :: insertBooking where
  "overlapRequest = \<lparr>resourceId = 1, startTime = clock 10 30, endTime = clock 11 30,
                     bookedBy = ''Cy'', purpose = ''Call''\<rparr>"

definition insideRequest :: insertBooking where
  "insideRequest = \<lparr>resourceId = 1, startTime = clock 10 15, endTime = clock 10 45,
                    bookedBy = ''Cy'', purpose = ''Call''\<rparr>"

definition stored :: "insertBooking \<Rightarrow> int \<Rightarrow> booking" where
  "stored d n = \<lparr>resourceId = resourceId d, startTime = startTime d, endTime = endTime d,
                 bookedBy = bookedBy d, purpose = purpose d, b_id = n\<rparr>"

definition racedStore :: store where
  "racedStore = \<lparr>resourceRows = [room 1],
                 bookingRows = [stored firstRequest 1, stored overlapRequest 2],
                 resourceSeq = 2, bookingSeq = 3\<rparr>"

definition shiftedStore :: store where
  "shiftedStore = \<lparr>resourceRows = [room 1],
                   bookingRows = [stored firstRequest 1, stored insideRequest 2],
                   resourceSeq = 2, bookingSeq = 3\<rparr>"

definition twoHoursEast :: int where
  "twoHoursEast = 2 * 3600000"

definition moveToNoon :: partialBooking where
  "moveToNoon = \<lparr>p_resourceId = None, p_startTime = Some (clock 12 0),
                 p_endTime = Some (clock 13 0), p_bookedBy = None, p_purpose = None\<rparr>"

definition changeResource :: partialBooking where
  "changeResource = \<lparr>p_resourceId = Some 2, p_startTime = None, p_endTime = None,
                     p_bookedBy = None, p_purpose = None\<rparr>"

lemmas example_defs =
  storeA_def storeAB_def bookingA_def bookingB_def room_def clock_def

section \<open>Facts about the checker\<close>

lemma checkBookingConflict_store: "snd (checkBookingConflict rid s e ex st) = st"
  by (simp add: checkBookingConflict_def split: list.splits)

lemma checkBookingConflict_iff:
  "fst (checkBookingConflict rid s e ex st) =
     (\<exists>b \<in> set (bookingRows st). resourceId b = rid
        \<and> ((startTime b \<le> s \<and> s \<le> endTime b) \<or> (startTime b \<le> e \<and> e \<le> endTime b)
            \<or> (s \<le> startTime b \<and> endTime b \<le> e))
        \<and> (truthy ex \<longrightarrow> Some (b_id b) \<noteq> ex))"
proof -
  have "fst (checkBookingConflict rid s e ex st) =
          (filter (and_cond (conditions rid s e ex)) (bookingRows st) \<noteq> [])"
    by (simp add: checkBookingConflict_def split: list.splits)
  also have "\<dots> = (\<exists>b \<in> set (bookingRows st). and_cond (conditions rid s e ex) b)"
    by (simp add: filter_empty_conv)
  also have "\<dots> = (\<exists>b \<in> set (bookingRows st). resourceId b = rid
        \<and> ((startTime b \<le> s \<and> s \<le> endTime b) \<or> (startTime b \<le> e \<and> e \<le> endTime b)
            \<or> (s \<le> startTime b \<and> endTime b \<le> e))
        \<and> (truthy ex \<longrightarrow> Some (b_id b) \<noteq> ex))"
    by (cases ex)
       (auto simp: conditions_def and_cond_def or_cond_def not_cond_def eq_cond_def
          lte_cond_def gte_cond_def val_def startsDuring_def endsDuring_def
          encompasses_def overlapCondition_def truthy_def)
  finally show ?thesis .
qed

lemma overlapCondition_iff:
  "overlapCondition s e b =
     ((startTime b \<le> s \<and> s \<le> endTime b) \<or> (startTime b \<le> e \<and> e \<le> endTime b)
       \<or> (s \<le> startTime b \<and> endTime b \<le> e))"
  by (simp add: overlapCondition_def or_cond_def and_cond_def lte_cond_def gte_cond_def
        val_def startsDuring_def endsDuring_def encompasses_def)

lemma overlapCondition_server_eq:
  "overlapCondition_server zone s e = overlapCondition (s + zone) (e + zone)"
  by (rule ext)
     (auto simp: overlapCondition_iff overlapCondition_server_def or_cond_def and_cond_def
        lte_cond_def gte_cond_def val_def startsDuring_server_def endsDuring_server_def
        encompasses_server_def asParameter_def)

lemma checkBookingConflict_server_store:
  "snd (checkBookingConflict_server zone rid s e ex st) = st"
  by (simp add: checkBookingConflict_server_def Let_def)

lemma checkBookingConflict_server_exclusion:
  "truthy ex \<Longrightarrow> checkBookingConflict_server zone rid s e ex st = (Inl QueryFailed, st)"
  by (simp add: checkBookingConflict_server_def)

lemma checkBookingConflict_server_no_exclusion:
  assumes "\<not> truthy ex"
  shows "checkBookingConflict_server zone rid s e ex st =
           (Inr (fst (checkBookingConflict rid (s + zone) (e + zone) ex st)), st)"
proof -
  have c: "conditions rid (s + zone) (e + zone) ex =
             [eq_cond resourceId (val rid), overlapCondition_server zone s e]"
    using assms by (cases ex) (simp_all add: conditions_def overlapCondition_server_eq)
  have "fst (checkBookingConflict rid (s + zone) (e + zone) ex st) =
          (filter (and_cond (conditions rid (s + zone) (e + zone) ex)) (bookingRows st) \<noteq> [])"
    by (simp add: checkBookingConflict_def split: list.splits)
  then show ?thesis
    unfolding c using assms by (simp add: checkBookingConflict_server_def Let_def)
qed

lemma checkBookingConflict_server_iff:
  assumes "\<not> truthy ex"
  shows "fst (checkBookingConflict_server zone rid s e ex st) =
           Inr (\<exists>b \<in> set (bookingRows st). resourceId b = rid
                  \<and> ((startTime b \<le> s + zone \<and> s + zone \<le> endTime b)
                      \<or> (startTime b \<le> e + zone \<and> e + zone \<le> endTime b)
                      \<or> (s + zone \<le> startTime b \<and> endTime b \<le> e + zone)))"
  using assms
  by (simp add: checkBookingConflict_server_no_exclusion checkBookingConflict_iff)

lemma self_exclusion_example:
  assumes "bookingA \<in> set (bookingRows st)"
    and "\<forall>b \<in> set (bookingRows st). b \<noteq> bookingA \<longrightarrow> resourceId b \<noteq> resourceId bookingA"
  shows "fst (checkBookingConflict 1 (clock 10 30) (clock 11 30) (Some 5) st) = False"
    and "fst (checkBookingConflict 1 (clock 10 30) (clock 11 30) None st) = True"
proof -
  show "fst (checkBookingConflict 1 (clock 10 30) (clock 11 30) (Some 5) st) = False"
    using assms(2) by (auto simp: checkBookingConflict_iff truthy_def bookingA_def clock_def)
  show "fst (checkBookingConflict 1 (clock 10 30) (clock 11 30) None st) = True"
    using assms(1) by (auto simp: checkBookingConflict_iff truthy_def bookingA_def clock_def
        intro!: bexI [of _ bookingA])
qed

lemma getBooking_store: "snd (getBooking i st) = st"
  by (simp add: getBooking_def)

section \<open>Facts about the routes\<close>

lemma serve_unfold:
  "serve zone req st =
     (case advance zone req st of
        (call, Inl response, st1) \<Rightarrow> ([call], response, st1)
      | (call, Inr req1, st1) \<Rightarrow>
          (call # fst (serve zone req1 st1), snd (serve zone req1 st1)))"
  by (subst serve.simps) (simp split: prod.splits sum.splits)

lemma serve_PostBookingInsert:
  "serve zone (PostBookingInsert d) st =
     ([CreateBookingCall d],
      case createBooking d st of
        (Inl err, st1) \<Rightarrow> (ServerError, st1)
      | (Inr booking, st1) \<Rightarrow> (Created booking, st1))"
  by (simp add: serve_unfold [of _ "PostBookingInsert d"] split: prod.splits sum.splits)

lemma serve_PostBooking:
  "serve zone (PostBooking d) st =
     (let check = CheckBookingConflictCall (resourceId d) (startTime d) (endTime d) None
      in case fst (checkBookingConflict_server zone (resourceId d) (startTime d) (endTime d)
                     None st) of
           Inl err \<Rightarrow> ([check], ServerError, st)
         | Inr hasConflict \<Rightarrow>
             if hasConflict then ([check], Conflict, st)
             else if endTime d \<le> startTime d then ([check], InvalidInterval, st)
             else (check # fst (serve zone (PostBookingInsert d) st),
                   snd (serve zone (PostBookingInsert d) st)))"
proof -
  obtain r where r: "checkBookingConflict_server zone (resourceId d) (startTime d) (endTime d)
                       None st = (r, st)"
    using checkBookingConflict_server_store
      [of zone "resourceId d" "startTime d" "endTime d" None st]
    by (cases "checkBookingConflict_server zone (resourceId d) (startTime d) (endTime d) None st")
       simp
  show ?thesis
    by (cases r) (simp_all add: serve_unfold [of _ "PostBooking d"] r Let_def)
qed

lemma serve_PutBookingUpdate:
  "serve zone (PutBookingUpdate i v) st = ([UpdateBookingCall i v], commitUpdate i v st)"
  by (simp add: serve_unfold [of _ "PutBookingUpdate i v"] respond_def)

lemma serve_PutBookingCheck:
  "serve zone (PutBookingCheck i v existing) st =
     (let rid = orNumber (p_resourceId v) (resourceId existing);
          s = orElse (p_startTime v) (startTime existing);
          e = orElse (p_endTime v) (endTime existing);
          check = CheckBookingConflictCall rid s e (Some i)
      in case fst (checkBookingConflict_server zone rid s e (Some i) st) of
           Inl err \<Rightarrow> ([check], ServerError, st)
         | Inr hasConflict \<Rightarrow>
             if hasConflict then ([check], Conflict, st)
             else if e \<le> s then ([check], InvalidInterval, st)
             else ([check, UpdateBookingCall i v], commitUpdate i v st))"
proof -
  let ?rid = "orNumber (p_resourceId v) (resourceId existing)"
  let ?s = "orElse (p_startTime v) (startTime existing)"
  let ?e = "orElse (p_endTime v) (endTime existing)"
  obtain r where r: "checkBookingConflict_server zone ?rid ?s ?e (Some i) st = (r, st)"
    using checkBookingConflict_server_store [of zone ?rid ?s ?e "Some i" st]
    by (cases "checkBookingConflict_server zone ?rid ?s ?e (Some i) st") simp
  show ?thesis
    by (cases r)
       (simp_all add: serve_unfold [of _ "PutBookingCheck i v existing"]
          serve_PutBookingUpdate r Let_def)
qed

lemma serve_PutBooking:
  "serve zone (PutBooking i v) st =
     (if truthy (p_resourceId v) \<or> p_startTime v \<noteq> None \<or> p_endTime v \<noteq> None
      then case find (\<lambda>b. b_id b = i) (bookingRows st) of
             None \<Rightarrow> ([GetBookingCall i], NotFound, st)
           | Some existing \<Rightarrow>
               (GetBookingCall i # fst (serve zone (PutBookingCheck i v existing) st),
                snd (serve zone (PutBookingCheck i v existing) st))
      else ([UpdateBookingCall i v], commitUpdate i v st))"
  by (cases "find (\<lambda>b. b_id b = i) (bookingRows st)")
     (simp_all add: serve_unfold [of _ "PutBooking i v"] getBooking_def respond_def)

lemma serve_DeleteBooking:
  "serve zone (DeleteBooking i) st = ([DeleteBookingCall i], deleteBookingRoute i st)"
  by (simp add: serve_unfold [of _ "DeleteBooking i"] respond_def)

lemma serve_PostResource:
  "serve zone (PostResource d) st = ([CreateResourceCall d], postResource d st)"
  by (simp add: serve_unfold [of _ "PostResource d"] respond_def)

lemma serve_PutResource:
  "serve zone (PutResource i u) st = ([UpdateResourceCall i u], putResource i u st)"
  by (simp add: serve_unfold [of _ "PutResource i u"] respond_def)

lemma serve_DeleteResource:
  "serve zone (DeleteResource i) st = ([DeleteResourceCall i], deleteResourceRoute i st)"
  by (simp add: serve_unfold [of _ "DeleteResource i"] respond_def)

lemma commitUpdate_unchanged_or_set:
  "snd (commitUpdate i v st) = st
   \<or> (\<exists>old. find (\<lambda>b. b_id b = i) (bookingRows st) = Some old
        \<and> \<not> emptyBookingUpdate v
        \<and> (resourceId (setBooking v old) = resourceId old
            \<or> resourceId (setBooking v old) \<in> set (resourceIds st))
        \<and> snd (commitUpdate i v st) =
            st\<lparr>bookingRows := map (\<lambda>b. if b_id b = i then setBooking v b else b) (bookingRows st)\<rparr>)"
  by (auto simp: commitUpdate_def updateBooking_def Let_def split: option.splits)

section \<open>Served one after the other in UTC, the requests keep the store consistent\<close>

lemma consistentI:
  assumes "1 \<le> resourceSeq st" and "1 \<le> bookingSeq st"
    and "\<And>r. r \<in> set (resourceRows st) \<Longrightarrow> 1 \<le> r_id r"
    and "\<And>b. b \<in> set (bookingRows st) \<Longrightarrow>
            1 \<le> b_id b \<and> b_id b < bookingSeq st
            \<and> resourceId b \<in> set (resourceIds st) \<and> startTime b < endTime b"
    and "distinct (map b_id (bookingRows st))"
    and "\<And>a b. a \<in> set (bookingRows st) \<Longrightarrow> b \<in> set (bookingRows st) \<Longrightarrow>
            b_id a \<noteq> b_id b \<Longrightarrow> resourceId a = resourceId b \<Longrightarrow>
            \<not> (startTime a \<le> endTime b \<and> startTime b \<le> endTime a)"
  shows "consistent st"
  unfolding consistent_def using assms by blast

lemma consistent_seqs: "consistent st \<Longrightarrow> 1 \<le> resourceSeq st \<and> 1 \<le> bookingSeq st"
  by (simp add: consistent_def)

lemma consistent_resource: "consistent st \<Longrightarrow> r \<in> set (resourceRows st) \<Longrightarrow> 1 \<le> r_id r"
  by (simp add: consistent_def)

lemma consistent_booking:
  "consistent st \<Longrightarrow> b \<in> set (bookingRows st) \<Longrightarrow>
     1 \<le> b_id b \<and> b_id b < bookingSeq st
     \<and> resourceId b \<in> set (resourceIds st) \<and> startTime b < endTime b"
  by (simp add: consistent_def)

lemma consistent_distinct: "consistent st \<Longrightarrow> distinct (map b_id (bookingRows st))"
  by (simp add: consistent_def)

lemma consistent_apart:
  "consistent st \<Longrightarrow> a \<in> set (bookingRows st) \<Longrightarrow> b \<in> set (bookingRows st) \<Longrightarrow>
     b_id a \<noteq> b_id b \<Longrightarrow> resourceId a = resourceId b \<Longrightarrow>
     \<not> (startTime a \<le> endTime b \<and> startTime b \<le> endTime a)"
  unfolding consistent_def by blast

lemma resourceIds_positive:
  "consistent st \<Longrightarrow> n \<in> set (resourceIds st) \<Longrightarrow> 1 \<le> n"
  by (auto simp: resourceIds_def dest: consistent_resource)

lemma consistent_emptyStore: "consistent emptyStore"
  by (simp add: consistent_def emptyStore_def)

lemma consistent_resources_changed:
  assumes c: "consistent st"
    and "bookingRows st' = bookingRows st" and "bookingSeq st' = bookingSeq st"
    and "1 \<le> resourceSeq st'"
    and "\<And>r. r \<in> set (resourceRows st') \<Longrightarrow> 1 \<le> r_id r"
    and "\<And>b. b \<in> set (bookingRows st) \<Longrightarrow> resourceId b \<in> set (resourceIds st')"
  shows "consistent st'"
proof (rule consistentI)
  fix b assume "b \<in> set (bookingRows st')"
  then have b: "b \<in> set (bookingRows st)" using assms(2) by simp
  from consistent_booking [OF c b] assms(6) [OF b] assms(3)
  show "1 \<le> b_id b \<and> b_id b < bookingSeq st'
        \<and> resourceId b \<in> set (resourceIds st') \<and> startTime b < endTime b"
    by simp
next
  fix a b assume "a \<in> set (bookingRows st')" "b \<in> set (bookingRows st')"
    "b_id a \<noteq> b_id b" "resourceId a = resourceId b"
  then show "\<not> (startTime a \<le> endTime b \<and> startTime b \<le> endTime a)"
    using consistent_apart [OF c, of a b] assms(2) by simp
qed (use assms consistent_seqs [OF c] consistent_distinct [OF c] in simp_all)

lemma consistent_postResource:
  assumes c: "consistent st" shows "consistent (snd (postResource d st))"
proof (rule consistent_resources_changed [OF c])
  fix r assume "r \<in> set (resourceRows (snd (postResource d st)))"
  then show "1 \<le> r_id r"
    using consistent_seqs [OF c] consistent_resource [OF c, of r]
    by (auto simp: postResource_def createResource_def Let_def)
next
  fix b assume "b \<in> set (bookingRows st)"
  then show "resourceId b \<in> set (resourceIds (snd (postResource d st)))"
    using consistent_booking [OF c, of b]
    by (simp add: postResource_def createResource_def Let_def resourceIds_def)
qed (use consistent_seqs [OF c] in \<open>simp_all add: postResource_def createResource_def Let_def\<close>)

lemma putResource_frame:
  "bookingRows (snd (putResource i u st)) = bookingRows st
   \<and> bookingSeq (snd (putResource i u st)) = bookingSeq st
   \<and> resourceSeq (snd (putResource i u st)) = resourceSeq st
   \<and> resourceIds (snd (putResource i u st)) = resourceIds st"
  by (auto simp: putResource_def updateResource_def setResource_def resourceIds_def
        split: option.splits)

lemma consistent_putResource:
  assumes c: "consistent st" shows "consistent (snd (putResource i u st))"
proof (rule consistent_resources_changed [OF c])
  fix r assume "r \<in> set (resourceRows (snd (putResource i u st)))"
  then have "r_id r \<in> set (resourceIds (snd (putResource i u st)))"
    by (simp add: resourceIds_def)
  then show "1 \<le> r_id r"
    using putResource_frame [of i u st] resourceIds_positive [OF c] by simp
next
  fix b assume "b \<in> set (bookingRows st)"
  then show "resourceId b \<in> set (resourceIds (snd (putResource i u st)))"
    using consistent_booking [OF c, of b] putResource_frame [of i u st] by simp
qed (use consistent_seqs [OF c] putResource_frame [of i u st] in simp_all)

lemma filter_length_same:
  "\<not> length (filter P xs) < length xs \<Longrightarrow> filter P xs = xs"
  by (metis filter_id_conv length_filter_less)

lemma deleteResourceRoute_cases:
  "snd (deleteResourceRoute i st) = st
   \<or> (snd (deleteResourceRoute i st) = st\<lparr>resourceRows := filter (\<lambda>r. r_id r \<noteq> i) (resourceRows st)\<rparr>
      \<and> (\<forall>b \<in> set (bookingRows st). resourceId b \<noteq> i))"
proof (cases "length (filter (\<lambda>r. r_id r \<noteq> i) (resourceRows st)) < length (resourceRows st)")
  case False
  then have "filter (\<lambda>r. r_id r \<noteq> i) (resourceRows st) = resourceRows st"
    by (rule filter_length_same)
  then show ?thesis
    using False by (simp add: deleteResourceRoute_def deleteResource_def Let_def)
next
  case True
  then show ?thesis
    by (cases "list_ex (\<lambda>b. resourceId b = i) (bookingRows st)")
       (simp_all add: deleteResourceRoute_def deleteResource_def Let_def list_ex_iff)
qed

lemma consistent_deleteResourceRoute:
  assumes c: "consistent st" shows "consistent (snd (deleteResourceRoute i st))"
proof -
  let ?st = "st\<lparr>resourceRows := filter (\<lambda>r. r_id r \<noteq> i) (resourceRows st)\<rparr>"
  have "consistent ?st" if unref: "\<forall>b \<in> set (bookingRows st). resourceId b \<noteq> i"
  proof (rule consistent_resources_changed [OF c])
    fix b assume b: "b \<in> set (bookingRows st)"
    then have "resourceId b \<in> r_id ` set (resourceRows st)" and "resourceId b \<noteq> i"
      using consistent_booking [OF c b] unref by (simp_all add: resourceIds_def)
    then show "resourceId b \<in> set (resourceIds ?st)"
      by (force simp: resourceIds_def)
  qed (use consistent_seqs [OF c] consistent_resource [OF c] in simp_all)
  then show ?thesis
    using deleteResourceRoute_cases [of i st] c by auto
qed

lemma consistent_deleteBookingRoute:
  assumes c: "consistent st" shows "consistent (snd (deleteBookingRoute i st))"
proof -
  let ?st = "st\<lparr>bookingRows := filter (\<lambda>b. b_id b \<noteq> i) (bookingRows st)\<rparr>"
  have st': "snd (deleteBookingRoute i st) = ?st"
    by (simp add: deleteBookingRoute_def deleteBooking_def Let_def split: bool.splits)
  have "consistent ?st"
  proof (rule consistentI)
    fix b assume "b \<in> set (bookingRows ?st)"
    then have "b \<in> set (bookingRows st)" by simp
    from consistent_booking [OF c this]
    show "1 \<le> b_id b \<and> b_id b < bookingSeq ?st
          \<and> resourceId b \<in> set (resourceIds ?st) \<and> startTime b < endTime b"
      by (simp add: resourceIds_def)
  next
    fix a b assume "a \<in> set (bookingRows ?st)" "b \<in> set (bookingRows ?st)"
      "b_id a \<noteq> b_id b" "resourceId a = resourceId b"
    then show "\<not> (startTime a \<le> endTime b \<and> startTime b \<le> endTime a)"
      using consistent_apart [OF c, of a b] by simp
  next
    show "distinct (map b_id (bookingRows ?st))"
      using consistent_distinct [OF c] by (simp add: distinct_map_filter)
  qed (use consistent_seqs [OF c] consistent_resource [OF c] in simp_all)
  then show ?thesis by (simp add: st')
qed

lemma no_conflict_apart:
  assumes "\<not> fst (checkBookingConflict rid s e ex st)"
    and "b \<in> set (bookingRows st)" and "resourceId b = rid"
    and "truthy ex \<longrightarrow> Some (b_id b) \<noteq> ex"
    and "s < e" and "startTime b < endTime b"
  shows "\<not> (s \<le> endTime b \<and> startTime b \<le> e)"
proof
  assume o: "s \<le> endTime b \<and> startTime b \<le> e"
  have "(startTime b \<le> s \<and> s \<le> endTime b) \<or> (startTime b \<le> e \<and> e \<le> endTime b)
          \<or> (s \<le> startTime b \<and> endTime b \<le> e)"
    using o by linarith
  then have "fst (checkBookingConflict rid s e ex st)"
    unfolding checkBookingConflict_iff using assms(2,3,4) by blast
  then show False using assms(1) by simp
qed

lemma consistent_bump_bookingSeq:
  assumes c: "consistent st" shows "consistent (st\<lparr>bookingSeq := bookingSeq st + 1\<rparr>)"
proof (rule consistentI)
  fix b assume "b \<in> set (bookingRows (st\<lparr>bookingSeq := bookingSeq st + 1\<rparr>))"
  then have "b \<in> set (bookingRows st)" by simp
  from consistent_booking [OF c this]
  show "1 \<le> b_id b \<and> b_id b < bookingSeq (st\<lparr>bookingSeq := bookingSeq st + 1\<rparr>)
        \<and> resourceId b \<in> set (resourceIds (st\<lparr>bookingSeq := bookingSeq st + 1\<rparr>))
        \<and> startTime b < endTime b"
    by (simp add: resourceIds_def)
next
  fix a b assume "a \<in> set (bookingRows (st\<lparr>bookingSeq := bookingSeq st + 1\<rparr>))"
    "b \<in> set (bookingRows (st\<lparr>bookingSeq := bookingSeq st + 1\<rparr>))"
    "b_id a \<noteq> b_id b" "resourceId a = resourceId b"
  then show "\<not> (startTime a \<le> endTime b \<and> startTime b \<le> endTime a)"
    using consistent_apart [OF c, of a b] by simp
qed (use consistent_seqs [OF c] consistent_resource [OF c] consistent_distinct [OF c] in simp_all)

lemma consistent_insert:
  assumes c: "consistent st"
    and free: "\<not> fst (checkBookingConflict (resourceId n) (startTime n) (endTime n) None st)"
    and valid: "startTime n < endTime n"
    and fk: "resourceId n \<in> set (resourceIds st)"
    and key: "b_id n = bookingSeq st"
  shows "consistent (st\<lparr>bookingSeq := bookingSeq st + 1, bookingRows := bookingRows st @ [n]\<rparr>)"
    (is "consistent ?st")
proof (rule consistentI)
  fix b assume "b \<in> set (bookingRows ?st)"
  then have "b \<in> set (bookingRows st) \<or> b = n" by auto
  then show "1 \<le> b_id b \<and> b_id b < bookingSeq ?st
        \<and> resourceId b \<in> set (resourceIds ?st) \<and> startTime b < endTime b"
    using consistent_booking [OF c, of b] consistent_seqs [OF c] valid fk key
    by (auto simp: resourceIds_def)
next
  show "distinct (map b_id (bookingRows ?st))"
    using consistent_distinct [OF c] consistent_booking [OF c] key by force
next
  fix a b assume a: "a \<in> set (bookingRows ?st)" and b: "b \<in> set (bookingRows ?st)"
    and ne: "b_id a \<noteq> b_id b" and same: "resourceId a = resourceId b"
  have old: "\<not> (startTime n \<le> endTime x \<and> startTime x \<le> endTime n)"
    if "x \<in> set (bookingRows st)" "resourceId x = resourceId n" for x
    using no_conflict_apart [OF free that(1) that(2) _ valid] consistent_booking [OF c that(1)]
    by (simp add: truthy_def)
  from a b have "(a \<in> set (bookingRows st) \<or> a = n) \<and> (b \<in> set (bookingRows st) \<or> b = n)"
    by auto
  then show "\<not> (startTime a \<le> endTime b \<and> startTime b \<le> endTime a)"
    using consistent_apart [OF c, of a b] old [of a] old [of b] ne same by auto
qed (use consistent_seqs [OF c] consistent_resource [OF c] in simp_all)

lemma find_key_unique:
  assumes "find (\<lambda>b. b_id b = i) xs = Some old" and "distinct (map b_id xs)"
    and "a \<in> set xs" and "b_id a = i"
  shows "a = old"
proof -
  have "old \<in> set xs" and "b_id old = i"
    using assms(1) by (auto simp: find_Some_iff)
  then show ?thesis
    using assms(2,3,4) by (auto simp: distinct_map dest: inj_onD)
qed

lemma setBooking_key: "b_id (setBooking v b) = b_id b"
  by (simp add: setBooking_def)

lemma consistent_replace:
  assumes c: "consistent st"
    and old: "find (\<lambda>b. b_id b = i) (bookingRows st) = Some old"
    and key: "b_id n = i"
    and valid: "startTime n < endTime n"
    and fk: "resourceId n \<in> set (resourceIds st)"
    and apart: "\<And>b. b \<in> set (bookingRows st) \<Longrightarrow> b_id b \<noteq> i \<Longrightarrow>
                  resourceId b = resourceId n \<Longrightarrow>
                  \<not> (startTime n \<le> endTime b \<and> startTime b \<le> endTime n)"
    and rows: "bookingRows st' = map (\<lambda>b. if b_id b = i then n else b) (bookingRows st)"
    and frame: "resourceRows st' = resourceRows st" "resourceSeq st' = resourceSeq st"
               "bookingSeq st' = bookingSeq st"
  shows "consistent st'"
proof (rule consistentI)
  have keys: "map b_id (bookingRows st') = map b_id (bookingRows st)"
    unfolding rows using key by (induction "bookingRows st") auto
  have oldin: "old \<in> set (bookingRows st)" "b_id old = i"
    using old by (auto simp: find_Some_iff)
  have mem: "x = n \<or> (x \<in> set (bookingRows st) \<and> b_id x \<noteq> i)"
    if "x \<in> set (bookingRows st')" for x
    using that unfolding rows by auto
  show "distinct (map b_id (bookingRows st'))"
    using keys consistent_distinct [OF c] by simp
  show "1 \<le> b_id b \<and> b_id b < bookingSeq st'
        \<and> resourceId b \<in> set (resourceIds st') \<and> startTime b < endTime b"
    if "b \<in> set (bookingRows st')" for b
    using mem [OF that] consistent_booking [OF c, of b] consistent_booking [OF c oldin(1)]
      oldin(2) key valid fk frame
    by (auto simp: resourceIds_def)
  show "\<not> (startTime a \<le> endTime b \<and> startTime b \<le> endTime a)"
    if "a \<in> set (bookingRows st')" "b \<in> set (bookingRows st')"
      "b_id a \<noteq> b_id b" "resourceId a = resourceId b" for a b
    using mem [OF that(1)] mem [OF that(2)] that(3,4) key
      consistent_apart [OF c, of a b] apart [of a] apart [of b]
    by auto
qed (use consistent_seqs [OF c] consistent_resource [OF c] frame in simp_all)

lemma serve_PostBooking_store:
  "snd (snd (serve 0 (PostBooking d) st)) = st
   \<or> snd (snd (serve 0 (PostBooking d) st)) = st\<lparr>bookingSeq := bookingSeq st + 1\<rparr>
   \<or> (snd (snd (serve 0 (PostBooking d) st)) =
         st\<lparr>bookingSeq := bookingSeq st + 1,
            bookingRows := bookingRows st @
              [\<lparr>resourceId = resourceId d, startTime = startTime d, endTime = endTime d,
                bookedBy = bookedBy d, purpose = purpose d, b_id = bookingSeq st\<rparr>]\<rparr>
       \<and> \<not> fst (checkBookingConflict (resourceId d) (startTime d) (endTime d) None st)
       \<and> startTime d < endTime d \<and> resourceId d \<in> set (resourceIds st))"
proof -
  have f: "\<not> truthy None" by (simp add: truthy_def)
  show ?thesis
    by (simp add: serve_PostBooking serve_PostBookingInsert createBooking_def Let_def
          checkBookingConflict_server_no_exclusion [OF f])
qed

lemma consistent_serve_PostBooking:
  assumes c: "consistent st" shows "consistent (snd (snd (serve 0 (PostBooking d) st)))"
  using serve_PostBooking_store [of d st] c consistent_bump_bookingSeq [OF c]
    consistent_insert [OF c, of "\<lparr>resourceId = resourceId d, startTime = startTime d,
      endTime = endTime d, bookedBy = bookedBy d, purpose = purpose d, b_id = bookingSeq st\<rparr>"]
  by auto

lemma consistent_commitUpdate_unchecked:
  assumes c: "consistent st"
    and plain: "\<not> (truthy (p_resourceId v) \<or> p_startTime v \<noteq> None \<or> p_endTime v \<noteq> None)"
  shows "consistent (snd (commitUpdate i v st))"
proof -
  let ?st = "snd (commitUpdate i v st)"
  have "consistent ?st"
    if old: "find (\<lambda>b. b_id b = i) (bookingRows st) = Some old"
      and fk0: "resourceId (setBooking v old) = resourceId old
                \<or> resourceId (setBooking v old) \<in> set (resourceIds st)"
      and st': "?st = st\<lparr>bookingRows :=
                  map (\<lambda>b. if b_id b = i then setBooking v b else b) (bookingRows st)\<rparr>"
    for old
  proof -
    let ?n = "setBooking v old"
    have oldin: "old \<in> set (bookingRows st)" "b_id old = i"
      using old by (auto simp: find_Some_iff)
    note oldok = consistent_booking [OF c oldin(1)]
    have fk: "resourceId ?n \<in> set (resourceIds st)"
      using fk0 oldok by auto
    then have "1 \<le> resourceId ?n"
      by (rule resourceIds_positive [OF c])
    then have nz: "p_resourceId v \<noteq> Some 0"
      by (auto simp: setBooking_def orElse_def)
    have same: "resourceId ?n = resourceId old \<and> startTime ?n = startTime old
                \<and> endTime ?n = endTime old"
      using plain nz
      by (auto simp: setBooking_def orElse_def truthy_def split: option.splits)
    have valid: "startTime ?n < endTime ?n"
      using same oldok by simp
    have apart: "\<not> (startTime ?n \<le> endTime b \<and> startTime b \<le> endTime ?n)"
      if b: "b \<in> set (bookingRows st)" and ne: "b_id b \<noteq> i"
        and r: "resourceId b = resourceId ?n" for b
      using same consistent_apart [OF c oldin(1) b] oldin(2) ne r by auto
    have rows: "bookingRows ?st = map (\<lambda>b. if b_id b = i then ?n else b) (bookingRows st)"
      unfolding st'
      using find_key_unique [OF old consistent_distinct [OF c]]
      by (auto intro!: map_cong)
    show ?thesis
      by (rule consistent_replace [OF c old _ valid fk apart rows])
         (simp_all add: setBooking_key oldin st')
  qed
  then show ?thesis
    using commitUpdate_unchanged_or_set [of i v st] c by auto
qed

lemma serve_PutBooking_store:
  assumes c: "consistent st"
  shows "snd (snd (serve zone (PutBooking i v) st)) = st
         \<or> (\<not> (truthy (p_resourceId v) \<or> p_startTime v \<noteq> None \<or> p_endTime v \<noteq> None)
            \<and> snd (snd (serve zone (PutBooking i v) st)) = snd (commitUpdate i v st))"
proof (cases "truthy (p_resourceId v) \<or> p_startTime v \<noteq> None \<or> p_endTime v \<noteq> None")
  case False
  then show ?thesis by (simp add: serve_PutBooking)
next
  case True
  show ?thesis
  proof (cases "find (\<lambda>b. b_id b = i) (bookingRows st)")
    case None
    then show ?thesis using True by (simp add: serve_PutBooking)
  next
    case (Some existing)
    then have "existing \<in> set (bookingRows st)" "b_id existing = i"
      by (auto simp: find_Some_iff)
    then have "truthy (Some i)"
      using consistent_booking [OF c, of existing] by (auto simp: truthy_def)
    then show ?thesis
      using True Some
      by (simp add: serve_PutBooking serve_PutBookingCheck Let_def
            checkBookingConflict_server_exclusion)
  qed
qed

lemma consistent_serve_PutBooking:
  assumes c: "consistent st" shows "consistent (snd (snd (serve zone (PutBooking i v) st)))"
  using serve_PutBooking_store [OF c, of zone i v] c consistent_commitUpdate_unchecked [OF c, of v i]
  by auto

lemma consistent_serve:
  assumes c: "consistent st" and "arrives r"
  shows "consistent (snd (snd (serve 0 r st)))"
  using assms
  by (cases r)
     (simp_all add: consistent_serve_PostBooking consistent_serve_PutBooking
        serve_DeleteBooking serve_PostResource serve_PutResource serve_DeleteResource
        consistent_deleteBookingRoute consistent_postResource consistent_putResource
        consistent_deleteResourceRoute)

lemma reachableSerially_consistent: "reachableSerially 0 st \<Longrightarrow> consistent st"
proof (induction rule: reachableSerially.induct)
  case serial_empty
  show ?case by (rule consistent_emptyStore)
next
  case (serial_serve st r calls response st')
  from consistent_serve [OF serial_serve.IH serial_serve.hyps(2)] serial_serve.hyps(3)
  show ?case by simp
qed

section \<open>Serving one request is a run of its calls\<close>

lemma serve_reachable:
  "reachable zone st (rs @ r # rs') \<Longrightarrow>
     reachable zone (snd (snd (serve zone r st))) (rs @ rs')"
proof (induction zone r st rule: serve.induct)
  case (1 zone req st)
  obtain call outcome st1 where adv: "advance zone req st = (call, outcome, st1)"
    by (cases "advance zone req st") auto
  show ?case
  proof (cases outcome)
    case (Inl response)
    then have "snd (snd (serve zone req st)) = st1"
      using adv by (simp add: serve_unfold [of zone req st])
    then show ?thesis
      using reach_respond [OF "1.prems"] adv Inl by simp
  next
    case (Inr req1)
    then have s: "snd (snd (serve zone req st)) = snd (snd (serve zone req1 st1))"
      using adv by (simp add: serve_unfold [of zone req st])
    have "reachable zone st1 (rs @ req1 # rs')"
      using reach_continue [OF "1.prems"] adv Inr by simp
    moreover have "(call, (outcome, st1)) = advance zone req st"
      using adv by simp
    ultimately have "reachable zone (snd (snd (serve zone req1 st1))) (rs @ rs')"
      using Inr by (intro "1.IH" [of call "(outcome, st1)" outcome st1 req1]) simp_all
    then show ?thesis by (simp add: s)
  qed
qed

lemma reachableSerially_reachable: "reachableSerially zone st \<Longrightarrow> reachable zone st []"
proof (induction rule: reachableSerially.induct)
  case serial_empty
  show ?case by (rule reach_empty)
next
  case (serial_serve st r calls response st')
  have "reachable zone st ([] @ r # [])"
    using reach_arrive [OF serial_serve.IH serial_serve.hyps(2)] by simp
  from serve_reachable [OF this] serial_serve.hyps(3) show ?case by simp
qed

section \<open>The example runs\<close>

lemmas request_defs =
  roomData_def firstRequest_def secondRequest_def overlapRequest_def insideRequest_def
  stored_def room_def clock_def twoHoursEast_def

lemma serve_roomData:
  "serve zone (PostResource roomData) emptyStore =
     ([CreateResourceCall roomData], ResourceCreated (room 1),
      \<lparr>resourceRows = [room 1], bookingRows = [], resourceSeq = 2, bookingSeq = 1\<rparr>)"
  by (simp add: serve_PostResource postResource_def createResource_def emptyStore_def
        roomData_def room_def Let_def)

lemma serve_firstRequest:
  "serve zone (PostBooking firstRequest)
     \<lparr>resourceRows = [room 1], bookingRows = [], resourceSeq = 2, bookingSeq = 1\<rparr> =
     ([CheckBookingConflictCall 1 (clock 10 0) (clock 11 0) None, CreateBookingCall firstRequest],
      Created (stored firstRequest 1),
      \<lparr>resourceRows = [room 1], bookingRows = [stored firstRequest 1],
        resourceSeq = 2, bookingSeq = 2\<rparr>)"
  by (simp add: serve_PostBooking serve_PostBookingInsert createBooking_def resourceIds_def
        checkBookingConflict_server_iff truthy_def Let_def request_defs)

lemma serve_secondRequest:
  "serve 0 (PostBooking secondRequest)
     \<lparr>resourceRows = [room 1], bookingRows = [stored firstRequest 1],
       resourceSeq = 2, bookingSeq = 2\<rparr> =
     ([CheckBookingConflictCall 1 (clock 11 15) (clock 11 45) None,
       CreateBookingCall secondRequest],
      Created (stored secondRequest 2),
      \<lparr>resourceRows = [room 1],
        bookingRows = [stored firstRequest 1, stored secondRequest 2],
        resourceSeq = 2, bookingSeq = 3\<rparr>)"
  by (simp add: serve_PostBooking serve_PostBookingInsert createBooking_def resourceIds_def
        checkBookingConflict_server_iff truthy_def Let_def request_defs)

lemma dayStore_rows: "bookingRows dayStore = [stored firstRequest 1, stored secondRequest 2]"
  by (simp add: dayStore_def serve_roomData serve_firstRequest serve_secondRequest)

lemma dayStore_reachable: "reachableSerially 0 dayStore"
proof -
  have "reachableSerially 0 (snd (snd (serve 0 (PostResource roomData) emptyStore)))"
    by (rule serial_serve [OF serial_empty, of "PostResource roomData"]) (simp_all add: prod_eq_iff)
  then have "reachableSerially 0
               (snd (snd (serve 0 (PostBooking firstRequest)
                  (snd (snd (serve 0 (PostResource roomData) emptyStore))))))"
    by (rule serial_serve [of _ _ "PostBooking firstRequest"]) (simp_all add: prod_eq_iff)
  then show ?thesis
    unfolding dayStore_def
    by (rule serial_serve [of _ _ "PostBooking secondRequest"]) (simp_all add: prod_eq_iff)
qed

text \<open>In a process at UTC+2 the request inside the first booking passes the check.\<close>

lemma serve_insideRequest:
  "serve twoHoursEast (PostBooking insideRequest)
     \<lparr>resourceRows = [room 1], bookingRows = [stored firstRequest 1],
       resourceSeq = 2, bookingSeq = 2\<rparr> =
     ([CheckBookingConflictCall 1 (clock 10 15) (clock 10 45) None,
       CreateBookingCall insideRequest],
      Created (stored insideRequest 2), shiftedStore)"
  by (simp add: serve_PostBooking serve_PostBookingInsert createBooking_def resourceIds_def
        checkBookingConflict_server_iff truthy_def Let_def request_defs shiftedStore_def)

lemma shiftedStore_reachable: "reachableSerially twoHoursEast shiftedStore"
proof -
  note r1 = serial_serve [OF serial_empty _ serve_roomData, of twoHoursEast]
  have "reachableSerially twoHoursEast
          \<lparr>resourceRows = [room 1], bookingRows = [], resourceSeq = 2, bookingSeq = 1\<rparr>"
    by (rule r1) simp
  then have "reachableSerially twoHoursEast
          \<lparr>resourceRows = [room 1], bookingRows = [stored firstRequest 1],
            resourceSeq = 2, bookingSeq = 2\<rparr>"
    by (rule serial_serve [OF _ _ serve_firstRequest]) simp
  then show ?thesis
    by (rule serial_serve [OF _ _ serve_insideRequest]) simp
qed

text \<open>
  In a process in UTC two creations whose calls interleave both pass the check before
  either inserts.
\<close>

lemma racedStore_reachable: "reachable 0 racedStore []"
proof -
  let ?s1 = "\<lparr>resourceRows = [room 1], bookingRows = [], resourceSeq = 2, bookingSeq = 1\<rparr>"
  let ?s2 = "\<lparr>resourceRows = [room 1], bookingRows = [stored firstRequest 1],
              resourceSeq = 2, bookingSeq = 2\<rparr>"
  have "reachable 0 emptyStore [PostResource roomData]"
    by (rule reach_arrive [OF reach_empty]) simp
  then have a1: "reachable 0 emptyStore ([] @ PostResource roomData # [])"
    by simp
  have e1: "advance 0 (PostResource roomData) emptyStore =
              (CreateResourceCall roomData, Inl (ResourceCreated (room 1)), ?s1)"
    by (simp add: respond_def postResource_def createResource_def emptyStore_def
          roomData_def room_def Let_def)
  from reach_respond [OF a1 e1] have "reachable 0 ?s1 []"
    by simp
  then have "reachable 0 ?s1 [PostBooking firstRequest]"
    by (rule reach_arrive) simp
  then have "reachable 0 ?s1 [PostBooking overlapRequest, PostBooking firstRequest]"
    by (rule reach_arrive) simp
  then have a2: "reachable 0 ?s1 ([PostBooking overlapRequest] @ PostBooking firstRequest # [])"
    by simp
  have e2: "advance 0 (PostBooking firstRequest) ?s1 =
              (CheckBookingConflictCall 1 (clock 10 0) (clock 11 0) None,
               Inr (PostBookingInsert firstRequest), ?s1)"
    by (simp add: checkBookingConflict_server_no_exclusion checkBookingConflict_iff
          truthy_def request_defs)
  from reach_continue [OF a2 e2]
  have a3: "reachable 0 ?s1 ([] @ PostBooking overlapRequest # [PostBookingInsert firstRequest])"
    by simp
  have e3: "advance 0 (PostBooking overlapRequest) ?s1 =
              (CheckBookingConflictCall 1 (clock 10 30) (clock 11 30) None,
               Inr (PostBookingInsert overlapRequest), ?s1)"
    by (simp add: checkBookingConflict_server_no_exclusion checkBookingConflict_iff
          truthy_def request_defs)
  from reach_continue [OF a3 e3]
  have a4: "reachable 0 ?s1
              ([PostBookingInsert overlapRequest] @ PostBookingInsert firstRequest # [])"
    by simp
  have e4: "advance 0 (PostBookingInsert firstRequest) ?s1 =
              (CreateBookingCall firstRequest, Inl (Created (stored firstRequest 1)), ?s2)"
    by (simp add: createBooking_def resourceIds_def request_defs Let_def)
  from reach_respond [OF a4 e4]
  have a5: "reachable 0 ?s2 ([] @ PostBookingInsert overlapRequest # [])"
    by simp
  have e5: "advance 0 (PostBookingInsert overlapRequest) ?s2 =
              (CreateBookingCall overlapRequest, Inl (Created (stored overlapRequest 2)),
               racedStore)"
    by (simp add: createBooking_def resourceIds_def request_defs racedStore_def Let_def)
  from reach_respond [OF a5 e5] show ?thesis
    by simp
qed

section \<open>The claims about the checker\<close>

text \<open>
  C1 (as amended). For every resource and every pair of valid intervals (the candidate
  has \<open>start < end\<close>, every stored booking has \<open>start < end\<close>),
  \<open>checkBookingConflict(resourceId, start, end)\<close> returns true if and only if some
  existing booking \<open>B\<close> of that resource satisfies \<open>start \<le> B.end\<close> and
  \<open>B.start \<le> end\<close>: the overlap of the closed intervals, not of the half-open ones.
\<close>

theorem closed_overlap_iff:
  assumes "s < e"
    and "\<forall>b \<in> set (bookingRows st). resourceId b = rid \<longrightarrow> startTime b < endTime b"
  shows "fst (checkBookingConflict rid s e None st) =
           (\<exists>b \<in> set (bookingRows st). resourceId b = rid \<and> s \<le> endTime b \<and> startTime b \<le> e)"
proof -
  have "\<And>b. b \<in> set (bookingRows st) \<Longrightarrow> resourceId b = rid \<Longrightarrow>
          ((startTime b \<le> s \<and> s \<le> endTime b) \<or> (startTime b \<le> e \<and> e \<le> endTime b)
            \<or> (s \<le> startTime b \<and> endTime b \<le> e))
          = (s \<le> endTime b \<and> startTime b \<le> e)"
    using assms by force
  then show ?thesis
    by (auto simp: checkBookingConflict_iff truthy_def)
qed

theorem closed_overlap_iff_witness:
  "fst (checkBookingConflict 1 (clock 11 0) (clock 12 0) None storeAB) =
     (\<exists>b \<in> set (bookingRows storeAB). resourceId b = 1 \<and> clock 11 0 \<le> endTime b \<and> startTime b \<le> clock 12 0)"
  using closed_overlap_iff [of "clock 11 0" "clock 12 0" storeAB 1]
  by (simp add: example_defs)

text \<open>
  The half-open wording fails where the candidate starts at the instant a booking ends:
  the checker reports a conflict with \<open>bookingA\<close>, the only booking of the store, while
  \<open>start < B.end\<close> is false.
\<close>

theorem half_open_counterexample:
  "fst (checkBookingConflict 1 (clock 11 0) (clock 12 0) None storeA)
   \<and> bookingRows storeA = [bookingA] \<and> resourceId bookingA = 1
   \<and> startTime bookingA < endTime bookingA \<and> clock 11 0 < clock 12 0
   \<and> \<not> (clock 11 0 < endTime bookingA \<and> startTime bookingA < clock 12 0)"
  by (simp add: checkBookingConflict_iff truthy_def example_defs)

text \<open>
  C2. Booking A (id 5) from 10:00 to 11:00 is the only booking of its resource; the
  check of the candidate 10:30 to 11:30 with \<open>excludeBookingId = 5\<close> must return false.
  The copy of the checker in \<open>src/server/storage.ts\<close> returns no boolean there: the call
  throws, whatever the time zone of the process, as every call with an
  \<open>excludeBookingId\<close> other than 0 does. The other copy returns false, as the claim
  says.
\<close>

theorem server_copy_fails_on_self_exclusion:
  "bookingRows storeA = [bookingA] \<and> b_id bookingA = 5
   \<and> fst (checkBookingConflict_server zone 1 (clock 10 30) (clock 11 30) (Some 5) storeA)
       = Inl QueryFailed
   \<and> fst (checkBookingConflict 1 (clock 10 30) (clock 11 30) (Some 5) storeA) = False"
  by (simp add: checkBookingConflict_server_exclusion checkBookingConflict_iff truthy_def
        example_defs)

text \<open>
  X1. In the copy of the checker that pushes \<open>not(eq(bookings.id, excludeBookingId))\<close>, an
  \<open>excludeBookingId\<close> other than 0 removes the booking with that id from the comparison
  set before the overlap rule is applied. The witness is the example of the
  specification: with booking A (id 5, 10:00 to 11:00) alone on its resource, the
  candidate 10:30 to 11:30 gives no conflict with \<open>excludeBookingId = 5\<close> and a conflict
  without it.
\<close>

theorem exclusion_removes_booking:
  "truthy (Some ex) \<Longrightarrow>
     fst (checkBookingConflict rid s e (Some ex) st) =
       fst (checkBookingConflict rid s e None
              (st\<lparr>bookingRows := filter (\<lambda>b. b_id b \<noteq> ex) (bookingRows st)\<rparr>))"
  by (auto simp: checkBookingConflict_iff truthy_def)

theorem exclusion_removes_booking_witness:
  "fst (checkBookingConflict 1 (clock 10 30) (clock 11 30) (Some 5) storeA) = False
   \<and> fst (checkBookingConflict 1 (clock 10 30) (clock 11 30) None storeA) = True"
proof -
  have t: "truthy (Some 5)" by (simp add: truthy_def)
  have "fst (checkBookingConflict 1 (clock 10 30) (clock 11 30) None
               (storeA\<lparr>bookingRows := filter (\<lambda>b. b_id b \<noteq> 5) (bookingRows storeA)\<rparr>)) = False"
    by (simp add: checkBookingConflict_iff example_defs)
  moreover have "fst (checkBookingConflict 1 (clock 10 30) (clock 11 30) None storeA) = True"
    by (simp add: checkBookingConflict_iff truthy_def example_defs)
  ultimately show ?thesis
    using exclusion_removes_booking [OF t, of 1 "clock 10 30" "clock 11 30" storeA] by simp
qed

text \<open>
  X2. Without an exclusion (\<open>excludeBookingId\<close> absent or 0) the copy of the checker
  in \<open>src/server/storage.ts\<close> gives the answer of the other copy for the candidate
  shifted by the time zone of the process: the same closed comparisons, written with the
  operands in the other order. In a process in UTC the two agree.
\<close>

theorem copies_agree_without_exclusion:
  assumes "\<not> truthy ex"
  shows "checkBookingConflict_server zone rid s e ex st =
           (Inr (fst (checkBookingConflict rid (s + zone) (e + zone) ex st)), st)"
  using assms by (rule checkBookingConflict_server_no_exclusion)

theorem copies_agree_without_exclusion_witness:
  "checkBookingConflict_server 0 1 (clock 11 0) (clock 12 0) None storeA = (Inr True, storeA)
   \<and> checkBookingConflict 1 (clock 11 0) (clock 12 0) None storeA = (True, storeA)"
proof -
  have f: "\<not> truthy None" by (simp add: truthy_def)
  have t: "fst (checkBookingConflict 1 (clock 11 0) (clock 12 0) None storeA)"
    by (simp add: checkBookingConflict_iff truthy_def example_defs)
  then have "checkBookingConflict 1 (clock 11 0) (clock 12 0) None storeA = (True, storeA)"
    by (simp add: prod_eq_iff checkBookingConflict_store)
  with t copies_agree_without_exclusion [OF f, of 0 1 "clock 11 0" "clock 12 0" storeA]
  show ?thesis by simp
qed

text \<open>
  C3 (as amended). For every store that contains a booking A from 10:00 to 11:00 on
  resource R, \<open>checkBookingConflict\<close> for the candidate from 11:00 to 12:00 on R
  returns true: a candidate that starts exactly at the instant an existing booking ends
  is reported as a conflict, since the comparisons are \<open>lte\<close> and \<open>gte\<close>.
\<close>

theorem abutment_is_conflict:
  assumes "a \<in> set (bookingRows st)" and "resourceId a = rid"
    and "startTime a = clock 10 0" and "endTime a = clock 11 0"
  shows "fst (checkBookingConflict rid (clock 11 0) (clock 12 0) None st) = True"
  using assms by (auto simp: checkBookingConflict_iff truthy_def clock_def)

theorem abutment_is_conflict_witness:
  "fst (checkBookingConflict 1 (clock 11 0) (clock 12 0) None storeA) = True"
  using abutment_is_conflict [of bookingA storeA 1]
  by (simp add: example_defs)

text \<open>
  The specification's wording, "returns false", fails on the store whose only booking is
  A: the candidate from 11:00 to 12:00 meets nothing but the end of A, and the checker
  returns true.
\<close>

theorem abutment_counterexample:
  "bookingRows storeA = [bookingA] \<and> resourceId bookingA = 1
   \<and> startTime bookingA = clock 10 0 \<and> endTime bookingA = clock 11 0
   \<and> fst (checkBookingConflict 1 (clock 11 0) (clock 12 0) None storeA) \<noteq> False"
  by (simp add: checkBookingConflict_iff truthy_def example_defs)

text \<open>
  C7. Bookings on different resources never conflict, whatever their times: a booking
  on another resource than the candidate's does not change the verdict of
  \<open>checkBookingConflict\<close>. The witness is the example of the specification: a candidate
  on resource 2 from 10:00 to 11:00 against a booking on resource 1 with the same
  interval gives no conflict.
\<close>

theorem other_resource_never_conflicts:
  assumes "resourceId b \<noteq> rid"
  shows "fst (checkBookingConflict rid s e ex (st\<lparr>bookingRows := b # bookingRows st\<rparr>)) =
         fst (checkBookingConflict rid s e ex st)"
  using assms by (auto simp: checkBookingConflict_iff)

theorem other_resource_never_conflicts_witness:
  "resourceId bookingA \<noteq> 2
   \<and> fst (checkBookingConflict 2 (clock 10 0) (clock 11 0) None
            (emptyStore\<lparr>bookingRows := bookingA # bookingRows emptyStore\<rparr>)) = False"
proof -
  have h: "resourceId bookingA \<noteq> 2" by (simp add: bookingA_def)
  have "fst (checkBookingConflict 2 (clock 10 0) (clock 11 0) None emptyStore) = False"
    by (simp add: checkBookingConflict_iff emptyStore_def)
  with h other_resource_never_conflicts [OF h, of "clock 10 0" "clock 11 0" None emptyStore]
  show ?thesis by simp
qed

text \<open>
  C8. For intervals \<open>[s1, e1)\<close> and \<open>[s2, e2)\<close> with \<open>s1 < e1\<close> and \<open>s2 < e2\<close>, the
  three-case condition of the checker (starts during, ends during, encompasses) is
  equivalent to the single inequality \<open>s1 \<le> e2 \<and> s2 \<le> e1\<close>.
\<close>

theorem three_cases_single_inequality:
  assumes "s1 < e1" and "startTime b < endTime b"
  shows "overlapCondition s1 e1 b = (s1 \<le> endTime b \<and> startTime b \<le> e1)"
  using assms by (auto simp: overlapCondition_iff)

theorem three_cases_single_inequality_witness:
  "clock 11 0 < clock 12 0 \<and> startTime bookingA < endTime bookingA
   \<and> overlapCondition (clock 11 0) (clock 12 0) bookingA
       = (clock 11 0 \<le> endTime bookingA \<and> startTime bookingA \<le> clock 12 0)"
  using three_cases_single_inequality [of "clock 11 0" "clock 12 0" bookingA]
  by (simp add: example_defs)

text \<open>
  C9. \<open>checkBookingConflict\<close> must return a boolean for every input and must return false
  for a resource with no bookings. The copy in \<open>src/server/storage.ts\<close> does not: for
  resource 2, which has no booking in the store, and \<open>excludeBookingId = 7\<close> the call
  throws. The other copy returns false.
\<close>

theorem server_copy_fails_for_resource_without_bookings:
  "filter (\<lambda>b. resourceId b = 2) (bookingRows storeAB) = []
   \<and> fst (checkBookingConflict_server zone 2 (clock 10 0) (clock 11 0) (Some 7) storeAB)
       = Inl QueryFailed
   \<and> fst (checkBookingConflict 2 (clock 10 0) (clock 11 0) (Some 7) storeAB) = False"
  by (simp add: checkBookingConflict_server_exclusion checkBookingConflict_iff truthy_def
        example_defs)

text \<open>
  C10. \<open>excludeBookingId = 0\<close> behaves as no exclusion parameter: the guard
  \<open>if (excludeBookingId)\<close> treats 0 as absent, in both copies of the checker, so a
  booking whose id is 0 is never excluded (the witness: it conflicts with itself).
\<close>

theorem exclude_zero_is_no_exclusion:
  "checkBookingConflict rid s e (Some 0) st = checkBookingConflict rid s e None st
   \<and> checkBookingConflict_server zone rid s e (Some 0) st
       = checkBookingConflict_server zone rid s e None st"
proof -
  have "\<And>s e. conditions rid s e (Some 0) = conditions rid s e None"
    by (simp add: conditions_def truthy_def)
  then show ?thesis
    by (simp add: checkBookingConflict_def checkBookingConflict_server_no_exclusion truthy_def)
qed

theorem exclude_zero_is_no_exclusion_witness:
  "fst (checkBookingConflict 1 (clock 10 30) (clock 11 30) (Some 0)
          (storeA\<lparr>bookingRows := [bookingA\<lparr>b_id := 0\<rparr>]\<rparr>)) = True"
proof -
  have "fst (checkBookingConflict 1 (clock 10 30) (clock 11 30) None
          (storeA\<lparr>bookingRows := [bookingA\<lparr>b_id := 0\<rparr>]\<rparr>)) = True"
    by (simp add: checkBookingConflict_iff truthy_def example_defs)
  with exclude_zero_is_no_exclusion
    [of 1 "clock 10 30" "clock 11 30" "storeA\<lparr>bookingRows := [bookingA\<lparr>b_id := 0\<rparr>]\<rparr>"]
  show ?thesis by simp
qed

section \<open>The claims about the routes\<close>

text \<open>
  C5 (as amended). For every booking-creation request the conflict check runs before
  the check of the interval: a candidate with \<open>end \<le> start\<close> is never stored; it is
  rejected with \<open>Conflict\<close> when \<open>checkBookingConflict\<close> reports a conflict for it, and
  with \<open>InvalidInterval\<close>, a distinct error, otherwise.
\<close>

theorem invalid_interval_after_conflict_check:
  assumes "endTime d \<le> startTime d"
  shows "postBooking d st =
           (if fst (checkBookingConflict (resourceId d) (startTime d) (endTime d) None st)
            then Conflict else InvalidInterval, st)"
proof -
  obtain r where r: "checkBookingConflict (resourceId d) (startTime d) (endTime d) None st = (r, st)"
    using checkBookingConflict_store [of "resourceId d" "startTime d" "endTime d" None st]
    by (cases "checkBookingConflict (resourceId d) (startTime d) (endTime d) None st") simp
  show ?thesis
    using assms by (simp add: postBooking_def r)
qed

theorem invalid_interval_after_conflict_check_witness:
  "postBooking zeroLength (storeA\<lparr>bookingRows := []\<rparr>) = (InvalidInterval, storeA\<lparr>bookingRows := []\<rparr>)"
proof -
  have h: "endTime zeroLength \<le> startTime zeroLength" by (simp add: zeroLength_def)
  have "\<not> fst (checkBookingConflict (resourceId zeroLength) (startTime zeroLength)
                  (endTime zeroLength) None (storeA\<lparr>bookingRows := []\<rparr>))"
    by (simp add: checkBookingConflict_iff)
  with invalid_interval_after_conflict_check [OF h, of "storeA\<lparr>bookingRows := []\<rparr>"]
  show ?thesis by simp
qed

text \<open>
  The specification's wording, "InvalidInterval regardless of what bookings exist", fails
  on the store that holds the booking from 10:00 to 11:00: the request of length zero at
  10:30 is answered with \<open>Conflict\<close>.
\<close>

theorem invalid_interval_counterexample:
  "endTime zeroLength = startTime zeroLength
   \<and> fst (postBooking zeroLength storeA) = Conflict
   \<and> fst (postBooking zeroLength storeA) \<noteq> InvalidInterval"
proof -
  have "fst (checkBookingConflict 1 (clock 10 30) (clock 10 30) None storeA)"
    by (simp add: checkBookingConflict_iff truthy_def example_defs)
  then have "postBooking zeroLength storeA = (Conflict, storeA)"
    by (simp add: postBooking_def zeroLength_def split: prod.splits)
       (metis checkBookingConflict_store fst_conv snd_conv)
  then show ?thesis by (simp add: zeroLength_def)
qed

text \<open>
  X3. The handler over \<open>src/server/storage.ts\<close> has the same order, in every time zone:
  for a request with \<open>end \<le> start\<close> it makes the one call \<open>checkBookingConflict\<close>,
  answers \<open>Conflict\<close> when that reports a conflict and \<open>InvalidInterval\<close> otherwise, and
  leaves the store as it was.
\<close>

theorem served_invalid_interval_after_conflict_check:
  assumes "endTime d \<le> startTime d"
  shows "serve zone (PostBooking d) st =
           ([CheckBookingConflictCall (resourceId d) (startTime d) (endTime d) None],
            if fst (checkBookingConflict_server zone (resourceId d) (startTime d) (endTime d)
                      None st) = Inr True
            then Conflict else InvalidInterval,
            st)"
proof -
  have "\<not> truthy None" by (simp add: truthy_def)
  then show ?thesis
    using assms
    by (simp add: serve_PostBooking Let_def checkBookingConflict_server_no_exclusion)
qed

theorem served_invalid_interval_after_conflict_check_witness:
  "serve 0 (PostBooking zeroLength) storeA =
     ([CheckBookingConflictCall 1 (clock 10 30) (clock 10 30) None], Conflict, storeA)"
proof -
  have h: "endTime zeroLength \<le> startTime zeroLength" by (simp add: zeroLength_def)
  have "fst (checkBookingConflict_server 0 1 (clock 10 30) (clock 10 30) None storeA) = Inr True"
    by (simp add: checkBookingConflict_server_iff truthy_def example_defs)
  with served_invalid_interval_after_conflict_check [OF h, of 0 storeA]
  show ?thesis by (simp add: zeroLength_def)
qed

text \<open>
  C6 (as amended). For every update of an existing booking that supplies a
  \<open>resourceId\<close> other than 0, a \<open>startTime\<close> or an \<open>endTime\<close>, the handler reads the
  booking, then calls \<open>checkBookingConflict\<close> with the updated candidate resource and
  interval (each what the update supplies, else what the booking has) and with the id of
  the booking as \<open>excludeBookingId\<close>, and calls \<open>updateBooking\<close> after that exactly when
  the check has returned false and the candidate has \<open>start < end\<close>; otherwise it answers
  with an error and the store is as it was. An update that supplies none of the three
  calls \<open>updateBooking\<close> and makes no conflict check.
\<close>

theorem update_checks_only_time_or_resource:
  assumes "find (\<lambda>b. b_id b = i) (bookingRows st) = Some existing"
    and "serve zone (PutBooking i v) st = (calls, response, st')"
    and "rid = (case p_resourceId v of
                  None \<Rightarrow> resourceId existing
                | Some r \<Rightarrow> if r = 0 then resourceId existing else r)"
    and "s = (case p_startTime v of None \<Rightarrow> startTime existing | Some t \<Rightarrow> t)"
    and "e = (case p_endTime v of None \<Rightarrow> endTime existing | Some t \<Rightarrow> t)"
  shows "calls =
           (if (\<exists>r. p_resourceId v = Some r \<and> r \<noteq> 0) \<or> p_startTime v \<noteq> None
               \<or> p_endTime v \<noteq> None
            then [GetBookingCall i, CheckBookingConflictCall rid s e (Some i)]
                 @ (if fst (checkBookingConflict_server zone rid s e (Some i) st) = Inr False
                       \<and> s < e
                    then [UpdateBookingCall i v] else [])
            else [UpdateBookingCall i v])
         \<and> (UpdateBookingCall i v \<notin> set calls \<longrightarrow>
               st' = st
               \<and> response =
                   (case fst (checkBookingConflict_server zone rid s e (Some i) st) of
                      Inl err \<Rightarrow> ServerError
                    | Inr hasConflict \<Rightarrow> if hasConflict then Conflict else InvalidInterval))"
proof -
  have g: "truthy (p_resourceId v) = (\<exists>r. p_resourceId v = Some r \<and> r \<noteq> 0)"
    by (cases "p_resourceId v") (simp_all add: truthy_def)
  have rid: "orNumber (p_resourceId v) (resourceId existing) = rid"
    using assms(3) by (cases "p_resourceId v") (simp_all add: orNumber_def orElse_def truthy_def)
  have s: "orElse (p_startTime v) (startTime existing) = s"
    using assms(4) by (simp add: orElse_def)
  have e: "orElse (p_endTime v) (endTime existing) = e"
    using assms(5) by (simp add: orElse_def)
  show ?thesis
  proof (cases "truthy (p_resourceId v) \<or> p_startTime v \<noteq> None \<or> p_endTime v \<noteq> None")
    case False
    then show ?thesis
      using assms(2) g by (auto simp: serve_PutBooking)
  next
    case True
    obtain r where r: "fst (checkBookingConflict_server zone rid s e (Some i) st) = r"
      by simp
    have run: "(calls, response, st') =
                 (GetBookingCall i # fst (serve zone (PutBookingCheck i v existing) st),
                  snd (serve zone (PutBookingCheck i v existing) st))"
      using assms(1,2) True by (simp add: serve_PutBooking)
    show ?thesis
    proof (cases r)
      case (Inl err)
      then show ?thesis
        using run r True g by (simp add: serve_PutBookingCheck rid s e Let_def)
    next
      case (Inr h)
      then show ?thesis
        using run r True g
        by (cases "h \<or> e \<le> s") (auto simp: serve_PutBookingCheck rid s e Let_def)
    qed
  qed
qed

theorem update_checks_only_time_or_resource_witness:
  "serve 0 (PutBooking 6 changeResource) storeAB =
     ([GetBookingCall 6, CheckBookingConflictCall 2 (clock 11 15) (clock 11 45) (Some 6)],
      ServerError, storeAB)"
proof -
  obtain calls response st' where
    run: "serve 0 (PutBooking 6 changeResource) storeAB = (calls, response, st')"
    by (cases "serve 0 (PutBooking 6 changeResource) storeAB") auto
  have existing: "find (\<lambda>b. b_id b = 6) (bookingRows storeAB) = Some bookingB"
    by (simp add: example_defs)
  have rid: "2 = (case p_resourceId changeResource of
                    None \<Rightarrow> resourceId bookingB
                  | Some r \<Rightarrow> if r = 0 then resourceId bookingB else r)"
    by (simp add: changeResource_def)
  have s: "clock 11 15 = (case p_startTime changeResource of
                            None \<Rightarrow> startTime bookingB | Some t \<Rightarrow> t)"
    by (simp add: changeResource_def bookingB_def)
  have e: "clock 11 45 = (case p_endTime changeResource of
                            None \<Rightarrow> endTime bookingB | Some t \<Rightarrow> t)"
    by (simp add: changeResource_def bookingB_def)
  have failed: "fst (checkBookingConflict_server 0 2 (clock 11 15) (clock 11 45) (Some 6) storeAB)
                  = Inl QueryFailed"
    by (simp add: checkBookingConflict_server_exclusion truthy_def)
  from update_checks_only_time_or_resource [OF existing run rid s e] failed
  have "calls = [GetBookingCall 6, CheckBookingConflictCall 2 (clock 11 15) (clock 11 45) (Some 6)]
        \<and> st' = storeAB \<and> response = ServerError"
    by (simp add: changeResource_def)
  then show ?thesis using run by simp
qed

text \<open>
  The specification's wording fails twice. An update that changes the purpose only is
  committed by the one call \<open>updateBooking\<close>, with no conflict check. And an update
  that moves booking 6 to the free hour from 12:00 does get its check, but the check is
  not one with the booking excluded: the call throws and the update is answered with
  \<open>ServerError\<close>.
\<close>

theorem update_recheck_counterexample:
  "serve 0 (PutBooking 6 purposeOnly) storeAB =
     ([UpdateBookingCall 6 purposeOnly], Updated (bookingB\<lparr>purpose := ''Retro''\<rparr>),
      storeAB\<lparr>bookingRows := [bookingA, bookingB\<lparr>purpose := ''Retro''\<rparr>]\<rparr>)
   \<and> serve 0 (PutBooking 6 moveToNoon) storeAB =
     ([GetBookingCall 6, CheckBookingConflictCall 1 (clock 12 0) (clock 13 0) (Some 6)],
      ServerError, storeAB)
   \<and> fst (checkBookingConflict_server 0 1 (clock 12 0) (clock 13 0) (Some 6) storeAB)
       = Inl QueryFailed
   \<and> fst (checkBookingConflict 1 (clock 12 0) (clock 13 0) (Some 6) storeAB) = False"
proof -
  have 1: "serve 0 (PutBooking 6 purposeOnly) storeAB =
     ([UpdateBookingCall 6 purposeOnly], Updated (bookingB\<lparr>purpose := ''Retro''\<rparr>),
      storeAB\<lparr>bookingRows := [bookingA, bookingB\<lparr>purpose := ''Retro''\<rparr>]\<rparr>)"
    by (simp add: serve_PutBooking purposeOnly_def truthy_def commitUpdate_def
          updateBooking_def emptyBookingUpdate_def setBooking_def orElse_def Let_def
          storeAB_def bookingA_def bookingB_def)
  have 2: "serve 0 (PutBooking 6 moveToNoon) storeAB =
     ([GetBookingCall 6, CheckBookingConflictCall 1 (clock 12 0) (clock 13 0) (Some 6)],
      ServerError, storeAB)"
    by (simp add: serve_PutBooking serve_PutBookingCheck moveToNoon_def truthy_def
          orNumber_def orElse_def Let_def checkBookingConflict_server_exclusion
          storeAB_def bookingA_def bookingB_def)
  have 3: "fst (checkBookingConflict_server 0 1 (clock 12 0) (clock 13 0) (Some 6) storeAB)
             = Inl QueryFailed"
    by (simp add: checkBookingConflict_server_exclusion truthy_def)
  have 4: "fst (checkBookingConflict 1 (clock 12 0) (clock 13 0) (Some 6) storeAB) = False"
    by (simp add: checkBookingConflict_iff truthy_def example_defs)
  from 1 2 3 4 show ?thesis by simp
qed

text \<open>
  C4 (as amended). In every store reached from the empty database when the create,
  update and delete requests are served one after the other, each to its response before
  the next is received, by a process whose time zone is UTC, the bookings of one
  resource are pairwise non-overlapping in time: no two of them share an instant.
\<close>

theorem serially_reachable_bookings_never_overlap:
  assumes "reachableSerially 0 st"
    and "a \<in> set (bookingRows st)" and "b \<in> set (bookingRows st)"
    and "a \<noteq> b" and "resourceId a = resourceId b"
  shows "\<not> (startTime a < endTime b \<and> startTime b < endTime a)"
proof -
  have c: "consistent st" using assms(1) by (rule reachableSerially_consistent)
  have "b_id a \<noteq> b_id b"
    using consistent_distinct [OF c] assms(2,3,4) by (auto simp: distinct_map dest: inj_onD)
  from consistent_apart [OF c assms(2,3) this assms(5)] show ?thesis by auto
qed

theorem serially_reachable_bookings_never_overlap_witness:
  "reachableSerially 0 dayStore
   \<and> bookingRows dayStore = [stored firstRequest 1, stored secondRequest 2]
   \<and> \<not> (startTime (stored firstRequest 1) < endTime (stored secondRequest 2)
        \<and> startTime (stored secondRequest 2) < endTime (stored firstRequest 1))"
proof -
  have a: "stored firstRequest 1 \<in> set (bookingRows dayStore)"
    and b: "stored secondRequest 2 \<in> set (bookingRows dayStore)"
    by (simp_all add: dayStore_rows)
  have ne: "stored firstRequest 1 \<noteq> stored secondRequest 2"
    and same: "resourceId (stored firstRequest 1) = resourceId (stored secondRequest 2)"
    by (simp_all add: request_defs)
  from serially_reachable_bookings_never_overlap [OF dayStore_reachable a b ne same]
    dayStore_reachable dayStore_rows
  show ?thesis by simp
qed

text \<open>
  The specification's wording, for every store the requests can reach, fails twice. The
  calls of two creations can interleave: both pass the conflict check before either
  inserts, and the store holds 10:00 to 11:00 and 10:30 to 11:30 on resource 1. And in a
  process at UTC+2 the check compares the candidate two hours late, so a request from
  10:15 to 10:45 is stored inside the booking from 10:00 to 11:00, with the requests
  served one after the other.
\<close>

theorem raced_and_shifted_counterexample:
  "reachable 0 racedStore []
   \<and> bookingRows racedStore = [stored firstRequest 1, stored overlapRequest 2]
   \<and> resourceId (stored firstRequest 1) = resourceId (stored overlapRequest 2)
   \<and> startTime (stored firstRequest 1) < endTime (stored overlapRequest 2)
   \<and> startTime (stored overlapRequest 2) < endTime (stored firstRequest 1)
   \<and> reachableSerially twoHoursEast shiftedStore
   \<and> reachable twoHoursEast shiftedStore []
   \<and> bookingRows shiftedStore = [stored firstRequest 1, stored insideRequest 2]
   \<and> resourceId (stored firstRequest 1) = resourceId (stored insideRequest 2)
   \<and> startTime (stored firstRequest 1) < endTime (stored insideRequest 2)
   \<and> startTime (stored insideRequest 2) < endTime (stored firstRequest 1)"
  using racedStore_reachable shiftedStore_reachable
    reachableSerially_reachable [OF shiftedStore_reachable]
  by (simp add: racedStore_def shiftedStore_def request_defs)

end
